theory Spec2Isabelle
  imports Main "HOL-Library.Word"
begin

section \<open>JavaScript numbers\<close>

text \<open>
  The settlement service (\<^verbatim>\<open>server/services/settlementService.js\<close>) reads the
  ledger through ethers, which hands every Solidity unsigned integer over as a BigInt
  below \<open>2 ^ 256\<close>, and then converts it with \<^verbatim>\<open>Number(...)\<close>. A Number is an IEEE
  754 double: 53 significant bits, round to nearest, ties to even. Every Number the
  service computes with is an integer or an integer multiple of \<open>2 ^ -56\<close>, far from
  the overflow threshold \<open>2 ^ 1024\<close> and from the subnormal range, so a double is
  represented by the integer it denotes (or by its numerator over \<open>2 ^ 56\<close>) and the
  only rounding that has to be written out is the one to 53 significant bits.
\<close>

type_synonym uint256 = "256 word"

fun bit_length :: "nat \<Rightarrow> nat" where
  "bit_length n = (if n = 0 then 0 else Suc (bit_length (n div 2)))"

declare bit_length.simps [simp del]

text \<open>Rounding of an integer to 53 significant bits, nearest value, ties to even.\<close>

definition round53 :: "int \<Rightarrow> int" where
  "round53 m =
     (let a = nat \<bar>m\<bar>; b = bit_length a in
      if b \<le> 53 then m
      else
        let s = b - 53;
            q = a div 2 ^ s;
            r = a mod 2 ^ s;
            h = 2 ^ (s - 1);
            q' = (if h < r \<or> (r = h \<and> odd q) then q + 1 else q)
        in sgn m * int (q' * 2 ^ s))"

text \<open>\<^verbatim>\<open>Number(b)\<close> for a BigInt \<open>b\<close> read from the ledger.\<close>

definition Number :: "uint256 \<Rightarrow> int" where
  "Number b = round53 (uint b)"

text \<open>\<^verbatim>\<open>x + y\<close>, \<^verbatim>\<open>x - y\<close> and \<^verbatim>\<open>x * y\<close> on integer-valued Numbers.\<close>

definition js_add :: "int \<Rightarrow> int \<Rightarrow> int" where
  "js_add x y = round53 (x + y)"

definition js_sub :: "int \<Rightarrow> int \<Rightarrow> int" where
  "js_sub x y = round53 (x - y)"

definition js_mul :: "int \<Rightarrow> int \<Rightarrow> int" where
  "js_mul x y = round53 (x * y)"

text \<open>
  The literal \<^verbatim>\<open>0.05\<close> is the double \<open>3602879701896397 / 2 ^ 56\<close>
  (\<^verbatim>\<open>0x1.999999999999ap-5\<close>). The product \<^verbatim>\<open>x * 0.05\<close> of an integer-valued
  Number \<open>x\<close> is the exact product rounded to 53 bits; it is returned as its numerator
  over \<open>2 ^ 56\<close>.
\<close>

definition literal_0_05 :: int where
  "literal_0_05 = 3602879701896397"

definition js_mul_0_05 :: "int \<Rightarrow> int" where
  "js_mul_0_05 x = round53 (x * literal_0_05)"

text \<open>\<^verbatim>\<open>Math.floor\<close> of a Number given by its numerator over \<open>2 ^ 56\<close>.\<close>

definition Math_floor56 :: "int \<Rightarrow> int" where
  "Math_floor56 n = n div 2 ^ 56"

text \<open>
  \<^verbatim>\<open>Math.floor(Date.now() / 1000)\<close>: \<^verbatim>\<open>Date.now()\<close> is an integer number of
  milliseconds of magnitude at most \<open>8.64e15\<close>, for which the double quotient never
  reaches the next integer, so the result is the exact floor.
\<close>

definition now_seconds :: "int \<Rightarrow> int" where
  "now_seconds ms = ms div 1000"

text \<open>
  \<^verbatim>\<open>new Date(t)\<close> for a Number \<open>t\<close>: the time value, or Invalid Date (\<open>None\<close>)
  beyond \<open>8.64e15\<close> milliseconds.
\<close>

definition js_Date :: "int \<Rightarrow> int option" where
  "js_Date t = (if \<bar>t\<bar> \<le> 8640000000000000 then Some t else None)"

section \<open>Data model\<close>

text \<open>A rejected promise or thrown exception: an \<^verbatim>\<open>Error\<close> with its message.\<close>

datatype js_error = Error string

text \<open>
  The tuple returned by \<^verbatim>\<open>contract.getMarket(i)\<close>. Its last two components,
  \<^verbatim>\<open>metadata\<close> and \<^verbatim>\<open>memes\<close>, are destructured but never read by the service.
\<close>

record market =
  creator :: string
  endTime :: uint256
  yesVotes :: uint256
  noVotes :: uint256
  totalStaked :: uint256
  isActive :: bool

text \<open>The transaction response of \<^verbatim>\<open>releaseRewards\<close> and the receipt of \<^verbatim>\<open>tx.wait()\<close>.\<close>

record tx_response =
  hash :: string

record tx_receipt =
  blockNumber :: nat
  gasUsed :: nat

datatype side = funny | lame

record participant =
  address :: string
  vote :: side
  staked :: string
  payout :: string
  won :: bool

text \<open>
  A document of the \<^verbatim>\<open>SettlementRecord\<close> collection (\<^verbatim>\<open>server/models/Settlement.js\<close>).
  The schema stores \<^verbatim>\<open>totalStaked\<close>, \<^verbatim>\<open>creatorReward\<close>, \<^verbatim>\<open>voterRewards\<close> and
  \<^verbatim>\<open>gasUsed\<close> as the text that \<^verbatim>\<open>toString()\<close> gives; the fields below hold the
  value that text denotes (\<^verbatim>\<open>toString\<close> is injective on BigInts and on Numbers).
  Dates are millisecond time values. An array path that the constructor is not given
  is the empty array.
\<close>

record settlement =
  marketId :: nat
  templateCreator :: string
  endTime_date :: "int option"
  totalVotes :: int
  yesVotes_n :: int
  noVotes_n :: int
  totalStaked_text :: nat
  winnerSide :: side
  creatorReward :: int
  voterRewards :: int
  settlementTx :: string
  blockNumber_n :: nat
  gasUsed_text :: nat
  settledAt :: int
  participants :: "participant list"

text \<open>The projection returned by \<^verbatim>\<open>getSettlementStatus\<close>.\<close>

record status =
  status_marketId :: nat
  status_isActive :: bool
  timeLeft :: int
  readyForSettlement :: bool
  status_yesVotes :: int
  status_noVotes :: int
  status_totalStaked :: "nat \<times> nat"

text \<open>
  \<^verbatim>\<open>ethers.formatEther\<close> prints wei as a decimal number of ether; the pair is the
  integer part and the fractional part in wei.
\<close>

definition formatEther :: "uint256 \<Rightarrow> nat \<times> nat" where
  "formatEther v = (unat v div 10 ^ 18, unat v mod 10 ^ 18)"

section \<open>The ledger, the database and the clock\<close>

text \<open>
  Everything outside the process is a world \<open>'w\<close> that each awaited call may change
  and whose answers the service cannot predict: the contract behind ethers
  (\<^verbatim>\<open>marketCount\<close>, \<^verbatim>\<open>getMarket\<close>, \<^verbatim>\<open>releaseRewards.estimateGas\<close>,
  \<^verbatim>\<open>releaseRewards\<close>, \<^verbatim>\<open>tx.wait\<close>), the reasons for which MongoDB or mongoose
  may reject an insert other than the unique index (validation, connection), and
  \<^verbatim>\<open>Date.now()\<close>. A rejected promise is \<open>Inl\<close>. Gas amounts are BigInts. A market
  id is a natural number: the loop index of the scan, or what \<^verbatim>\<open>parseInt\<close> reads from
  the digits of the route parameter.
\<close>

record 'w env =
  op_marketCount :: "'w \<Rightarrow> (js_error + uint256) \<times> 'w"
  op_getMarket :: "nat \<Rightarrow> 'w \<Rightarrow> (js_error + market) \<times> 'w"
  op_estimateGas :: "nat \<Rightarrow> 'w \<Rightarrow> (js_error + nat) \<times> 'w"
  op_releaseRewards :: "nat \<Rightarrow> nat \<Rightarrow> 'w \<Rightarrow> (js_error + tx_response) \<times> 'w"
  op_wait :: "tx_response \<Rightarrow> 'w \<Rightarrow> (js_error + tx_receipt) \<times> 'w"
  op_insert_rejected :: "settlement \<Rightarrow> 'w \<Rightarrow> js_error option \<times> 'w"
  op_Date_now :: "'w \<Rightarrow> int"

text \<open>The calls the service makes on the ledger and on the database, in order.\<close>

datatype call =
    MarketCount
  | GetMarket nat
  | EstimateGas nat
  | ReleaseRewards nat nat
  | Wait string
  | Save nat

text \<open>
  The state of the process: the scan lock \<^verbatim>\<open>this.isRunning\<close>, the documents of the
  \<^verbatim>\<open>SettlementRecord\<close> collection, the world, and the calls made so far. Console
  output is not part of the model.
\<close>

record 'w state =
  isRunning :: bool
  store :: "settlement list"
  world :: 'w
  calls :: "call list"

definition contract_marketCount ::
  "'w env \<Rightarrow> 'w state \<Rightarrow> (js_error + uint256) \<times> 'w state" where
  "contract_marketCount env st =
     (case op_marketCount env (world st) of
        (r, w) \<Rightarrow> (r, st\<lparr>world := w, calls := calls st @ [MarketCount]\<rparr>))"

definition contract_getMarket ::
  "'w env \<Rightarrow> nat \<Rightarrow> 'w state \<Rightarrow> (js_error + market) \<times> 'w state" where
  "contract_getMarket env i st =
     (case op_getMarket env i (world st) of
        (r, w) \<Rightarrow> (r, st\<lparr>world := w, calls := calls st @ [GetMarket i]\<rparr>))"

definition releaseRewards_estimateGas ::
  "'w env \<Rightarrow> nat \<Rightarrow> 'w state \<Rightarrow> (js_error + nat) \<times> 'w state" where
  "releaseRewards_estimateGas env i st =
     (case op_estimateGas env i (world st) of
        (r, w) \<Rightarrow> (r, st\<lparr>world := w, calls := calls st @ [EstimateGas i]\<rparr>))"

definition contract_releaseRewards ::
  "'w env \<Rightarrow> nat \<Rightarrow> nat \<Rightarrow> 'w state \<Rightarrow> (js_error + tx_response) \<times> 'w state" where
  "contract_releaseRewards env i gasLimit st =
     (case op_releaseRewards env i gasLimit (world st) of
        (r, w) \<Rightarrow> (r, st\<lparr>world := w, calls := calls st @ [ReleaseRewards i gasLimit]\<rparr>))"

definition tx_wait ::
  "'w env \<Rightarrow> tx_response \<Rightarrow> 'w state \<Rightarrow> (js_error + tx_receipt) \<times> 'w state" where
  "tx_wait env tx st =
     (case op_wait env tx (world st) of
        (r, w) \<Rightarrow> (r, st\<lparr>world := w, calls := calls st @ [Wait (hash tx)]\<rparr>))"

text \<open>
  \<^verbatim>\<open>settlementRecord.save()\<close>: the collection has a unique index on
  \<^verbatim>\<open>marketId\<close> (\<^verbatim>\<open>unique: true\<close> in the schema), so an insert is rejected with a
  duplicate-key error when a document with that market id exists; otherwise the whole
  document is inserted. Whether mongoose or the database rejects the document for
  another reason (a required field that is empty, an invalid date, a lost connection)
  is asked of the world.
\<close>

definition duplicate_key :: js_error where
  "duplicate_key = Error ''E11000 duplicate key error''"

definition save :: "'w env \<Rightarrow> settlement \<Rightarrow> 'w state \<Rightarrow> js_error option \<times> 'w state" where
  "save env r st =
     (case op_insert_rejected env r (world st) of
        (rejected, w) \<Rightarrow>
          (let st1 = st\<lparr>world := w, calls := calls st @ [Save (marketId r)]\<rparr> in
           case rejected of
             Some e \<Rightarrow> (Some e, st1)
           | None \<Rightarrow>
               if marketId r \<in> set (map marketId (store st1)) then (Some duplicate_key, st1)
               else (None, st1\<lparr>store := store st1 @ [r]\<rparr>)))"

section \<open>The settlement service\<close>

text \<open>
  The document that \<^verbatim>\<open>storeSettlementRecord\<close> constructs; \<open>now\<close> is the
  \<^verbatim>\<open>Date.now()\<close> of \<^verbatim>\<open>new Date()\<close>.
\<close>

definition settlementRecord ::
  "nat \<Rightarrow> market \<Rightarrow> string \<Rightarrow> tx_receipt \<Rightarrow> int \<Rightarrow> settlement" where
  "settlementRecord mid marketData txHash receipt now =
     (let totalVotes' = js_add (Number (yesVotes marketData)) (Number (noVotes marketData));
          winnerSide' =
            (if Number (noVotes marketData) < Number (yesVotes marketData) then funny else lame);
          totalPool = Number (totalStaked marketData);
          creatorReward' = Math_floor56 (js_mul_0_05 totalPool);
          voterRewards' = js_sub totalPool creatorReward'
      in \<lparr> marketId = mid,
           templateCreator = creator marketData,
           endTime_date = js_Date (js_mul (Number (endTime marketData)) 1000),
           totalVotes = totalVotes',
           yesVotes_n = Number (yesVotes marketData),
           noVotes_n = Number (noVotes marketData),
           totalStaked_text = unat (totalStaked marketData),
           winnerSide = winnerSide',
           creatorReward = creatorReward',
           voterRewards = voterRewards',
           settlementTx = txHash,
           blockNumber_n = blockNumber receipt,
           gasUsed_text = gasUsed receipt,
           settledAt = now,
           participants = [] \<rparr>)"

text \<open>\<^verbatim>\<open>storeSettlementRecord\<close>: its \<^verbatim>\<open>catch\<close> logs the error and returns normally.\<close>

definition storeSettlementRecord ::
  "'w env \<Rightarrow> nat \<Rightarrow> market \<Rightarrow> string \<Rightarrow> tx_receipt \<Rightarrow> 'w state \<Rightarrow> 'w state" where
  "storeSettlementRecord env mid marketData txHash receipt st =
     snd (save env (settlementRecord mid marketData txHash receipt (op_Date_now env (world st))) st)"

text \<open>
  \<^verbatim>\<open>settleMarket\<close>: the whole body is inside \<^verbatim>\<open>try\<close>, and the \<^verbatim>\<open>catch\<close> logs
  (the tests on the message of the error only choose the log line) and returns
  \<^verbatim>\<open>false\<close>. The gas limit is computed on BigInts.
\<close>

definition settleMarket :: "'w env \<Rightarrow> nat \<Rightarrow> market \<Rightarrow> 'w state \<Rightarrow> bool \<times> 'w state" where
  "settleMarket env mid marketData st =
     (case releaseRewards_estimateGas env mid st of
        (Inl error, st1) \<Rightarrow> (False, st1)
      | (Inr gasEstimate, st1) \<Rightarrow>
          (case contract_releaseRewards env mid (gasEstimate * 120 div 100) st1 of
             (Inl error, st2) \<Rightarrow> (False, st2)
           | (Inr tx, st2) \<Rightarrow>
               (case tx_wait env tx st2 of
                  (Inl error, st3) \<Rightarrow> (False, st3)
                | (Inr receipt, st3) \<Rightarrow>
                    (True, storeSettlementRecord env mid marketData (hash tx) receipt st3))))"

text \<open>One iteration of the loop of \<^verbatim>\<open>checkAndSettleMarkets\<close>, with its \<^verbatim>\<open>try/catch\<close>.\<close>

definition processMarket :: "'w env \<Rightarrow> nat \<Rightarrow> nat \<times> 'w state \<Rightarrow> nat \<times> 'w state" where
  "processMarket env i acc =
     (case acc of (settledCount, st) \<Rightarrow>
        (case contract_getMarket env i st of
           (Inl error, st1) \<Rightarrow> (settledCount, st1)
         | (Inr m, st1) \<Rightarrow>
             if \<not> isActive m then (settledCount, st1)
             else
               (let now = now_seconds (op_Date_now env (world st1));
                    timeLeft' = js_sub (Number (endTime m)) now
                in if timeLeft' \<le> 0 then
                     (case settleMarket env i m st1 of
                        (settled, st2) \<Rightarrow>
                          (if settled then settledCount + 1 else settledCount, st2))
                   else (settledCount, st1))))"

text \<open>
  \<^verbatim>\<open>for (let i = 0; i < marketCount; i++)\<close>. The counter is a Number: \<^verbatim>\<open>i++\<close> adds
  one and rounds, which is exact below \<open>2 ^ 53\<close> and leaves \<open>2 ^ 53\<close> as it is. With more
  than \<open>2 ^ 53\<close> markets the loop therefore never ends. \<open>markets_loop_Number\<close> is the loop
  as written; not returning is \<open>None\<close>.
\<close>

definition js_increment :: "nat \<Rightarrow> nat" where
  "js_increment i = nat (js_add (int i) 1)"

partial_function (option) markets_loop_Number ::
  "'w env \<Rightarrow> nat \<Rightarrow> nat \<Rightarrow> nat \<times> 'w state \<Rightarrow> (nat \<times> 'w state) option" where
  "markets_loop_Number env marketCount i acc =
     (if i < marketCount
      then markets_loop_Number env marketCount (js_increment i) (processMarket env i acc)
      else Some acc)"

text \<open>
  The same loop with a counter that counts in the natural numbers. For a market count of
  at most \<open>2 ^ 53\<close> the loop as written returns, and returns what this one gives; it is
  the form in which the properties of the scan are stated.
\<close>

function markets_loop ::
  "'w env \<Rightarrow> nat \<Rightarrow> nat \<Rightarrow> nat \<times> 'w state \<Rightarrow> nat \<times> 'w state" where
  "markets_loop env marketCount i acc =
     (if i < marketCount then markets_loop env marketCount (Suc i) (processMarket env i acc)
      else acc)"
  by pat_completeness auto
termination
  by (relation "measure (\<lambda>(env, marketCount, i, acc). marketCount - i)") auto

declare markets_loop.simps [simp del]

text \<open>
  \<^verbatim>\<open>checkAndSettleMarkets\<close>: the outer \<^verbatim>\<open>catch\<close> logs and returns. First with the
  loop that counts in the natural numbers, then with the loop as written.
\<close>

definition checkAndSettleMarkets :: "'w env \<Rightarrow> 'w state \<Rightarrow> 'w state" where
  "checkAndSettleMarkets env st =
     (case contract_marketCount env st of
        (Inl error, st1) \<Rightarrow> st1
      | (Inr marketCount, st1) \<Rightarrow>
          if marketCount = 0 then st1
          else snd (markets_loop env (unat marketCount) 0 (0, st1)))"

definition checkAndSettleMarkets_Number :: "'w env \<Rightarrow> 'w state \<Rightarrow> 'w state option" where
  "checkAndSettleMarkets_Number env st =
     (case contract_marketCount env st of
        (Inl error, st1) \<Rightarrow> Some st1
      | (Inr marketCount, st1) \<Rightarrow>
          if marketCount = 0 then Some st1
          else map_option snd (markets_loop_Number env (unat marketCount) 0 (0, st1)))"

text \<open>\<^verbatim>\<open>manualSettle\<close>: the \<^verbatim>\<open>catch\<close> logs and throws the error again.\<close>

definition manualSettle :: "'w env \<Rightarrow> nat \<Rightarrow> 'w state \<Rightarrow> (js_error + bool) \<times> 'w state" where
  "manualSettle env mid st =
     (case contract_getMarket env mid st of
        (Inl error, st1) \<Rightarrow> (Inl error, st1)
      | (Inr m, st1) \<Rightarrow>
          (case settleMarket env mid m st1 of (settled, st2) \<Rightarrow> (Inr settled, st2)))"

text \<open>\<^verbatim>\<open>getSettlementStatus\<close>: the \<^verbatim>\<open>catch\<close> logs and throws the error again.\<close>

definition getSettlementStatus ::
  "'w env \<Rightarrow> nat \<Rightarrow> 'w state \<Rightarrow> (js_error + status) \<times> 'w state" where
  "getSettlementStatus env mid st =
     (case contract_getMarket env mid st of
        (Inl error, st1) \<Rightarrow> (Inl error, st1)
      | (Inr m, st1) \<Rightarrow>
          (let now = now_seconds (op_Date_now env (world st1));
               timeLeft' = js_sub (Number (endTime m)) now
           in (Inr \<lparr> status_marketId = mid,
                     status_isActive = isActive m,
                     timeLeft = timeLeft',
                     readyForSettlement = (timeLeft' \<le> 0 \<and> isActive m),
                     status_yesVotes = Number (yesVotes m),
                     status_noVotes = Number (noVotes m),
                     status_totalStaked = formatEther (totalStaked m) \<rparr>, st1)))"

section \<open>The scheduler\<close>

text \<open>
  The callback that \<^verbatim>\<open>start\<close> hands to \<^verbatim>\<open>cron.schedule\<close>. It runs without
  interruption up to its \<^verbatim>\<open>await\<close>: \<open>cron_enter\<close> is that synchronous part (the test
  of the lock and its acquisition; \<open>None\<close> is the skip), \<open>cron_exit\<close> is the
  \<^verbatim>\<open>finally\<close> block. The awaited routine is a parameter so that a routine that
  throws (\<open>Inl\<close>) is covered; the \<^verbatim>\<open>catch\<close> logs the error.
\<close>

definition cron_enter :: "'w state \<Rightarrow> 'w state option" where
  "cron_enter st = (if isRunning st then None else Some (st\<lparr>isRunning := True\<rparr>))"

definition cron_exit :: "'w state \<Rightarrow> 'w state" where
  "cron_exit st = st\<lparr>isRunning := False\<rparr>"

definition cron_callback_with ::
  "('w state \<Rightarrow> (js_error + unit) \<times> 'w state) \<Rightarrow> 'w state \<Rightarrow> 'w state" where
  "cron_callback_with scan st =
     (case cron_enter st of
        None \<Rightarrow> st
      | Some st1 \<Rightarrow> (case scan st1 of (result, st2) \<Rightarrow> cron_exit st2))"

definition cron_callback :: "'w env \<Rightarrow> 'w state \<Rightarrow> 'w state" where
  "cron_callback env = cron_callback_with (\<lambda>st. (Inr (), checkAndSettleMarkets env st))"

text \<open>
  Ticks may fire while an earlier callback is still awaiting its scan. The events of
  the scheduler are a tick, and the end of an awaited scan (by return or by throw);
  a configuration is the state together with the number of scans in flight. An end
  event without a scan in flight cannot happen (\<open>None\<close>).
\<close>

datatype cron_event = Tick | ScanReturns | ScanThrows

fun cron_step :: "cron_event \<Rightarrow> 'w state \<times> nat \<Rightarrow> ('w state \<times> nat) option" where
  "cron_step Tick (st, k) =
     (case cron_enter st of None \<Rightarrow> Some (st, k) | Some st1 \<Rightarrow> Some (st1, Suc k))"
| "cron_step ScanReturns (st, k) = (if k = 0 then None else Some (cron_exit st, k - 1))"
| "cron_step ScanThrows (st, k) = (if k = 0 then None else Some (cron_exit st, k - 1))"

fun cron_run :: "cron_event list \<Rightarrow> 'w state \<times> nat \<Rightarrow> ('w state \<times> nat) option" where
  "cron_run [] c = Some c"
| "cron_run (e # es) c = (case cron_step e c of None \<Rightarrow> None | Some c' \<Rightarrow> cron_run es c')"

section \<open>Notions used in the properties\<close>

text \<open>The calls made between two states of one run.\<close>

definition calls_since :: "'w state \<Rightarrow> 'w state \<Rightarrow> call list" where
  "calls_since st st' = drop (length (calls st)) (calls st')"

text \<open>
  The accumulator of the loop of the scan (the count of settled markets and the state) when
  the counter reaches \<open>k\<close>.
\<close>

definition scan_before :: "'w env \<Rightarrow> 'w state \<Rightarrow> nat \<Rightarrow> nat \<times> 'w state" where
  "scan_before env st k = markets_loop env k 0 (0, snd (contract_marketCount env st))"

text \<open>Two states that differ at most in what the store holds.\<close>

definition same_but_store :: "'w state \<Rightarrow> 'w state \<Rightarrow> bool" where
  "same_but_store a b = (isRunning a = isRunning b \<and> world a = world b \<and> calls a = calls b)"

text \<open>A call that belongs to the finalisation of market \<open>i\<close>: the estimate or the submission.\<close>

fun finalize_call :: "nat \<Rightarrow> call \<Rightarrow> bool" where
  "finalize_call i (EstimateGas j) = (i = j)"
| "finalize_call i (ReleaseRewards j g) = (i = j)"
| "finalize_call i c = False"

fun is_GetMarket :: "call \<Rightarrow> bool" where
  "is_GetMarket (GetMarket i) = True"
| "is_GetMarket c = False"

text \<open>The time test of the scan, for a snapshot \<open>m\<close> and the world in which the clock is read.\<close>

definition due :: "'w env \<Rightarrow> market \<Rightarrow> 'w \<Rightarrow> bool" where
  "due env m w = (js_sub (Number (endTime m)) (now_seconds (op_Date_now env w)) \<le> 0)"

text \<open>Estimation, submission and confirmation of \<^verbatim>\<open>releaseRewards\<close> all succeed from world \<open>w\<close>.\<close>

definition finalize_confirmed :: "'w env \<Rightarrow> nat \<Rightarrow> 'w \<Rightarrow> bool" where
  "finalize_confirmed env i w =
     (case op_estimateGas env i w of
        (Inl e, w1) \<Rightarrow> False
      | (Inr g, w1) \<Rightarrow>
          (case op_releaseRewards env i (g * 120 div 100) w1 of
             (Inl e, w2) \<Rightarrow> False
           | (Inr tx, w2) \<Rightarrow>
               (case op_wait env tx w2 of (Inl e, w3) \<Rightarrow> False | (Inr rc, w3) \<Rightarrow> True)))"

text \<open>
  The query of \<^verbatim>\<open>GET /api/user-settlements/:address\<close> in \<^verbatim>\<open>server.js\<close>,
  \<^verbatim>\<open>SettlementRecord.find({"participants.address": address})\<close>, before its sort.
\<close>

definition find_participants_address :: "string \<Rightarrow> settlement list \<Rightarrow> settlement list" where
  "find_participants_address a rs = filter (\<lambda>r. a \<in> set (map address (participants r))) rs"

subsection \<open>A fixed ledger\<close>

text \<open>
  A ledger that answers \<^verbatim>\<open>getMarket(i)\<close> from a list, takes the answer of the gas
  estimate and of the insert as parameters, accepts and confirms every submission,
  and whose clock stands still.
\<close>

definition fixed_env ::
  "(js_error + market) list \<Rightarrow> (nat \<Rightarrow> js_error + nat) \<Rightarrow> js_error option \<Rightarrow> int \<Rightarrow> unit env" where
  "fixed_env ms estimate rejected clock =
     \<lparr> op_marketCount = (\<lambda>w. (Inr (of_nat (length ms)), w)),
       op_getMarket = (\<lambda>i w. (if i < length ms then ms ! i else Inl (Error ''no market''), w)),
       op_estimateGas = (\<lambda>i w. (estimate i, w)),
       op_releaseRewards = (\<lambda>i g w. (Inr \<lparr>hash = ''0xabc''\<rparr>, w)),
       op_wait = (\<lambda>tx w. (Inr \<lparr>blockNumber = 7, gasUsed = 21000\<rparr>, w)),
       op_insert_rejected = (\<lambda>r w. (rejected, w)),
       op_Date_now = (\<lambda>w. clock) \<rparr>"

definition a_market :: "uint256 \<Rightarrow> uint256 \<Rightarrow> uint256 \<Rightarrow> uint256 \<Rightarrow> bool \<Rightarrow> market" where
  "a_market t y n s a =
     \<lparr> creator = ''0xc0ffee'', endTime = t, yesVotes = y, noVotes = n, totalStaked = s,
       isActive = a \<rparr>"

definition idle :: "unit state" where
  "idle = \<lparr> isRunning = False, store = [], world = (), calls = [] \<rparr>"

definition waiting_ledger :: "unit env" where
  "waiting_ledger =
     fixed_env [Inr (a_market 2000000000 3 1 500 True), Inr (a_market 1600000000 2 5 700 False)]
       (\<lambda>j. Inr 100000) None 1700000000000"

definition failing_ledger :: "unit env" where
  "failing_ledger =
     fixed_env [Inl (Error ''missing revert data''), Inr (a_market 1600000000 3 1 500 True),
                Inr (a_market 1600000000 3 1 500 True)]
       (\<lambda>j. if j = 1 then Inl (Error ''cannot estimate gas'') else Inr 100000) None 1700000000000"

definition rejecting_ledger :: "unit env" where
  "rejecting_ledger =
     fixed_env [Inr (a_market 1600000000 3 1 500 True)] (\<lambda>j. Inr 100000)
       (Some (Error ''buffering timed out'')) 1700000000000"

definition accepting_ledger :: "unit env" where
  "accepting_ledger =
     fixed_env [Inr (a_market 1600000000 3 3 500 True)] (\<lambda>j. Inr 100000) None 1700000000000"

definition unestimable_ledger :: "unit env" where
  "unestimable_ledger =
     fixed_env [Inr (a_market 1600000000 3 1 500 True)] (\<lambda>j. Inl (Error ''cannot estimate gas''))
       None 1700000000000"

definition settled_once :: "unit state" where
  "settled_once = snd (settleMarket accepting_ledger 0 (a_market 1600000000 3 3 500 True) idle)"

section \<open>Facts about the rounding of Numbers\<close>

lemma bit_length_le: "n < 2 ^ k \<Longrightarrow> bit_length n \<le> k"
proof (induction k arbitrary: n)
  case 0
  then show ?case by (simp add: bit_length.simps)
next
  case (Suc k)
  show ?case
  proof (cases "n = 0")
    case True
    then show ?thesis by (simp add: bit_length.simps)
  next
    case False
    from Suc.prems have "n div 2 < 2 ^ k" by simp
    then have "bit_length (n div 2) \<le> k" by (rule Suc.IH)
    with False show ?thesis by (subst bit_length.simps) simp
  qed
qed

lemma bit_length_gt: "k < bit_length n \<Longrightarrow> 2 ^ k \<le> n"
  using bit_length_le [of n k] by (cases "n < 2 ^ k") auto

lemma bit_length_pow2: "bit_length (2 ^ k) = Suc k"
proof (induction k)
  case 0
  show ?case by (simp add: bit_length.simps)
next
  case (Suc k)
  then show ?case by (subst bit_length.simps) simp
qed

lemma round53_small: "\<bar>m\<bar> < 2 ^ 53 \<Longrightarrow> round53 m = m"
proof -
  assume "\<bar>m\<bar> < 2 ^ 53"
  then have "nat \<bar>m\<bar> < 2 ^ 53" by (simp add: nat_less_iff)
  then have "bit_length (nat \<bar>m\<bar>) \<le> 53" by (rule bit_length_le)
  then show ?thesis by (simp add: round53_def Let_def)
qed

lemma round53_pow53: "\<bar>m\<bar> = 2 ^ 53 \<Longrightarrow> round53 m = m"
proof -
  assume a: "\<bar>m\<bar> = 2 ^ 53"
  then have n: "nat \<bar>m\<bar> = 2 ^ 53" by simp
  have m: "m = sgn m * 2 ^ 53" using a by (cases "m < 0") (simp_all add: sgn_if)
  have bl: "bit_length 9007199254740992 = 54"
    using bit_length_pow2 [of 53] by simp
  have "round53 m = sgn m * 2 ^ 53"
    using n by (simp add: round53_def Let_def bl)
  with m show ?thesis by simp
qed

lemma round53_exact: "\<bar>m\<bar> \<le> 2 ^ 53 \<Longrightarrow> round53 m = m"
  using round53_small [of m] round53_pow53 [of m] by (cases "\<bar>m\<bar> = 2 ^ 53") auto

lemma round53_sgn: "sgn (round53 m) = sgn m"
proof (cases "bit_length (nat \<bar>m\<bar>) \<le> 53")
  case True
  then show ?thesis by (simp add: round53_def Let_def)
next
  case False
  define a where "a = nat \<bar>m\<bar>"
  define s where "s = bit_length a - 53"
  define q where "q = a div 2 ^ s"
  from False have b: "53 < bit_length a" by (simp add: a_def)
  then have "bit_length a - 1 < bit_length a" by simp
  then have "2 ^ (bit_length a - 1) \<le> a" by (rule bit_length_gt)
  moreover have "(2::nat) ^ s \<le> 2 ^ (bit_length a - 1)"
    unfolding s_def by (rule power_increasing) auto
  ultimately have "2 ^ s \<le> a" by (rule order_trans [rotated])
  then have q1: "1 \<le> q" unfolding q_def by (simp add: Suc_le_eq div_greater_zero_iff)
  define q' where "q' = (if 2 ^ (s - 1) < a mod 2 ^ s \<or> (a mod 2 ^ s = 2 ^ (s - 1) \<and> odd q)
    then q + 1 else q)"
  have "0 < q'" using q1 by (simp add: q'_def)
  then have pos: "0 < int (q' * 2 ^ s)" by simp
  have "round53 m = sgn m * int (q' * 2 ^ s)"
    using False
    unfolding round53_def a_def [symmetric] Let_def s_def [symmetric] q_def [symmetric]
      q'_def [symmetric]
    by simp
  then have "sgn (round53 m) = sgn (sgn m) * sgn (int (q' * 2 ^ s))"
    by (simp only: sgn_mult)
  also have "\<dots> = sgn m" using pos by (simp only: sgn_sgn sgn_pos mult_1_right)
  finally show ?thesis .
qed

lemma round53_le_0: "round53 m \<le> 0 \<longleftrightarrow> m \<le> 0"
  using round53_sgn [of m] by (auto simp add: sgn_if split: if_splits)

lemma Number_exact: "unat b \<le> 2 ^ 53 \<Longrightarrow> Number b = int (unat b)"
proof -
  assume "unat b \<le> 2 ^ 53"
  then have "int (unat b) \<le> int (2 ^ 53)" by (rule iffD2 [OF of_nat_le_iff])
  then have "\<bar>int (unat b)\<bar> \<le> 2 ^ 53" by simp
  then have "round53 (int (unat b)) = int (unat b)" by (rule round53_exact)
  then show ?thesis unfolding Number_def uint_nat .
qed

lemma round53_nonneg: "0 \<le> m \<Longrightarrow> 0 \<le> round53 m"
  using round53_le_0 [of m] round53_sgn [of m] by (cases "m = 0") (auto simp add: sgn_if split: if_splits)

lemma bit_length_bound: "n < 2 ^ bit_length n"
proof (induction n rule: bit_length.induct)
  case (1 n)
  show ?case
  proof (cases "n = 0")
    case True
    then show ?thesis by simp
  next
    case False
    with 1 have "n div 2 < 2 ^ bit_length (n div 2)" by simp
    then have "n < 2 * 2 ^ bit_length (n div 2)" by linarith
    with False show ?thesis by (subst bit_length.simps) simp
  qed
qed

lemma bit_length_eq: "2 ^ k \<le> n \<Longrightarrow> n < 2 ^ Suc k \<Longrightarrow> bit_length n = Suc k"
proof -
  assume lo: "2 ^ k \<le> n" and hi: "n < 2 ^ Suc k"
  from hi have "bit_length n \<le> Suc k" by (rule bit_length_le)
  moreover have "\<not> bit_length n \<le> k"
  proof
    assume "bit_length n \<le> k"
    then have "(2::nat) ^ bit_length n \<le> 2 ^ k" by (simp add: power_increasing)
    with bit_length_bound [of n] lo show False by linarith
  qed
  ultimately show ?thesis by linarith
qed

section \<open>Basic facts about the calls and the store\<close>

lemma contract_marketCount_eq:
  "contract_marketCount env st =
     (fst (op_marketCount env (world st)),
      st\<lparr>world := snd (op_marketCount env (world st)), calls := calls st @ [MarketCount]\<rparr>)"
  by (simp add: contract_marketCount_def split: prod.splits)

lemma contract_getMarket_eq:
  "contract_getMarket env i st =
     (fst (op_getMarket env i (world st)),
      st\<lparr>world := snd (op_getMarket env i (world st)), calls := calls st @ [GetMarket i]\<rparr>)"
  by (simp add: contract_getMarket_def split: prod.splits)

lemma releaseRewards_estimateGas_eq:
  "releaseRewards_estimateGas env i st =
     (fst (op_estimateGas env i (world st)),
      st\<lparr>world := snd (op_estimateGas env i (world st)), calls := calls st @ [EstimateGas i]\<rparr>)"
  by (simp add: releaseRewards_estimateGas_def split: prod.splits)

lemma contract_releaseRewards_eq:
  "contract_releaseRewards env i g st =
     (fst (op_releaseRewards env i g (world st)),
      st\<lparr>world := snd (op_releaseRewards env i g (world st)),
         calls := calls st @ [ReleaseRewards i g]\<rparr>)"
  by (simp add: contract_releaseRewards_def split: prod.splits)

lemma tx_wait_eq:
  "tx_wait env tx st =
     (fst (op_wait env tx (world st)),
      st\<lparr>world := snd (op_wait env tx (world st)), calls := calls st @ [Wait (hash tx)]\<rparr>)"
  by (simp add: tx_wait_def split: prod.splits)

lemma save_isRunning: "isRunning (snd (save env r st)) = isRunning st"
  by (simp add: save_def Let_def split: prod.splits option.splits)

lemma save_calls: "calls (snd (save env r st)) = calls st @ [Save (marketId r)]"
  by (simp add: save_def Let_def split: prod.splits option.splits)

lemma save_store:
  "store (snd (save env r st)) =
     (if fst (save env r st) = None then store st @ [r] else store st)"
  by (simp add: save_def Let_def split: prod.splits option.splits)

lemma save_ok_fresh:
  "fst (save env r st) = None \<Longrightarrow> marketId r \<notin> set (map marketId (store st))"
  by (simp add: save_def Let_def split: prod.splits option.splits if_splits)

lemma save_distinct:
  "distinct (map marketId (store st)) \<Longrightarrow> distinct (map marketId (store (snd (save env r st))))"
  using save_ok_fresh [of env r st] by (simp add: save_store)

lemma storeSettlementRecord_isRunning:
  "isRunning (storeSettlementRecord env i m h rc st) = isRunning st"
  by (simp add: storeSettlementRecord_def save_isRunning)

lemma storeSettlementRecord_calls:
  "calls (storeSettlementRecord env i m h rc st) = calls st @ [Save i]"
  by (simp add: storeSettlementRecord_def save_calls settlementRecord_def Let_def)

lemma storeSettlementRecord_store:
  "store (storeSettlementRecord env i m h rc st) = store st \<or>
   store (storeSettlementRecord env i m h rc st) =
     store st @ [settlementRecord i m h rc (op_Date_now env (world st))]"
  by (simp add: storeSettlementRecord_def save_store)

lemma storeSettlementRecord_distinct:
  "distinct (map marketId (store st)) \<Longrightarrow>
   distinct (map marketId (store (storeSettlementRecord env i m h rc st)))"
  by (simp add: storeSettlementRecord_def save_distinct)

lemmas ledger_calls = releaseRewards_estimateGas_def contract_releaseRewards_def tx_wait_def

lemma settleMarket_fst: "fst (settleMarket env i m st) = finalize_confirmed env i (world st)"
  by (simp add: settleMarket_def finalize_confirmed_def ledger_calls split: prod.splits sum.splits)

lemma settleMarket_isRunning: "isRunning (snd (settleMarket env i m st)) = isRunning st"
  by (simp add: settleMarket_def ledger_calls storeSettlementRecord_isRunning
      split: prod.splits sum.splits)

lemma settleMarket_store:
  "store (snd (settleMarket env i m st)) = store st \<or>
   (\<exists>h rc now. store (snd (settleMarket env i m st)) = store st @ [settlementRecord i m h rc now])"
proof (cases "fst (settleMarket env i m st)")
  case False
  then show ?thesis
    by (auto simp add: settleMarket_def ledger_calls split: prod.splits sum.splits)
next
  case True
  then obtain h rc st3 where "snd (settleMarket env i m st) = storeSettlementRecord env i m h rc st3"
    and "store st3 = store st"
    by (auto simp add: settleMarket_def ledger_calls split: prod.splits sum.splits)
  then show ?thesis using storeSettlementRecord_store [of env i m h rc st3] by auto
qed


lemma settleMarket_distinct:
  "distinct (map marketId (store st)) \<Longrightarrow>
   distinct (map marketId (store (snd (settleMarket env i m st))))"
  by (auto simp add: settleMarket_def ledger_calls storeSettlementRecord_distinct
      split: prod.splits sum.splits)

lemma settleMarket_calls:
  "\<exists>cs. calls (snd (settleMarket env i m st)) = calls st @ EstimateGas i # cs \<and>
        (\<forall>c\<in>set cs. \<not> is_GetMarket c \<and> (\<forall>j. finalize_call j c \<longrightarrow> j = i))"
  by (auto simp add: settleMarket_def ledger_calls storeSettlementRecord_calls
      split: prod.splits sum.splits)

lemma settleMarket_store_indep:
  "calls (snd (settleMarket env i m (st\<lparr>store := s\<rparr>))) = calls (snd (settleMarket env i m st))"
  by (auto simp add: settleMarket_def ledger_calls storeSettlementRecord_calls
      split: prod.splits sum.splits)


subsection \<open>The constructed record and the fixed ledger\<close>

lemma marketId_settlementRecord: "marketId (settlementRecord i m h rc now) = i"
  by (simp add: settlementRecord_def Let_def)

lemma participants_settlementRecord: "participants (settlementRecord i m h rc now) = []"
  by (simp add: settlementRecord_def Let_def)

lemma settleMarket_new_record:
  "r \<in> set (store (snd (settleMarket env i m st))) \<Longrightarrow> r \<notin> set (store st) \<Longrightarrow>
   \<exists>h rc now. r = settlementRecord i m h rc now"
  using settleMarket_store [of env i m st] by fastforce

lemma fixed_env_sel:
  "op_marketCount (fixed_env ms est rej clock) w = (Inr (of_nat (length ms)), w)"
  "op_getMarket (fixed_env ms est rej clock) i w =
     (if i < length ms then ms ! i else Inl (Error ''no market''), w)"
  "op_estimateGas (fixed_env ms est rej clock) i w = (est i, w)"
  "op_releaseRewards (fixed_env ms est rej clock) i g w = (Inr \<lparr>hash = ''0xabc''\<rparr>, w)"
  "op_wait (fixed_env ms est rej clock) tx w = (Inr \<lparr>blockNumber = 7, gasUsed = 21000\<rparr>, w)"
  "op_insert_rejected (fixed_env ms est rej clock) r w = (rej, w)"
  "op_Date_now (fixed_env ms est rej clock) w = clock"
  by (simp_all add: fixed_env_def)

lemma settleMarket_fixed_env:
  "est i = Inr g \<Longrightarrow>
   settleMarket (fixed_env ms est rej clock) i m st =
     (True,
      st\<lparr>store :=
           (if rej = None \<and> i \<notin> set (map marketId (store st))
            then store st @ [settlementRecord i m ''0xabc'' \<lparr>blockNumber = 7, gasUsed = 21000\<rparr> clock]
            else store st),
         calls := calls st @
           [EstimateGas i, ReleaseRewards i (g * 120 div 100), Wait ''0xabc'', Save i]\<rparr>)"
  by (cases rej)
    (simp_all add: settleMarket_def ledger_calls storeSettlementRecord_def save_def fixed_env_sel
      marketId_settlementRecord Let_def)

lemma settlementRecord_rewards:
  "totalStaked_text (settlementRecord i m h rc now) = unat (totalStaked m)"
  "creatorReward (settlementRecord i m h rc now) = Math_floor56 (js_mul_0_05 (Number (totalStaked m)))"
  "voterRewards (settlementRecord i m h rc now) =
     js_sub (Number (totalStaked m)) (Math_floor56 (js_mul_0_05 (Number (totalStaked m))))"
  by (simp_all add: settlementRecord_def Let_def)

lemma a_market_sel:
  "creator (a_market t y n s a) = ''0xc0ffee''" "endTime (a_market t y n s a) = t"
  "yesVotes (a_market t y n s a) = y" "noVotes (a_market t y n s a) = n"
  "totalStaked (a_market t y n s a) = s" "isActive (a_market t y n s a) = a"
  by (simp_all add: a_market_def)

section \<open>Facts about the scan\<close>

lemma markets_loop_fold: "markets_loop env n i acc = fold (processMarket env) [i..<n] acc"
proof (induction "n - i" arbitrary: i acc)
  case 0
  then show ?case by (simp add: markets_loop.simps)
next
  case (Suc d)
  then have lt: "i < n" and d: "d = n - Suc i" by simp_all
  have "markets_loop env n i acc = markets_loop env n (Suc i) (processMarket env i acc)"
    using lt by (subst markets_loop.simps) simp
  also have "\<dots> = fold (processMarket env) [Suc i..<n] (processMarket env i acc)"
    using d by (rule Suc.hyps(1))
  also have "\<dots> = fold (processMarket env) [i..<n] acc"
    using lt by (simp add: upt_conv_Cons)
  finally show ?case .
qed

lemma processMarket_cases:
  "snd (processMarket env i acc) = snd (contract_getMarket env i (snd acc)) \<or>
   (\<exists>m. fst (op_getMarket env i (world (snd acc))) = Inr m \<and> isActive m \<and>
        due env m (snd (op_getMarket env i (world (snd acc)))) \<and>
        snd (processMarket env i acc) =
          snd (settleMarket env i m (snd (contract_getMarket env i (snd acc)))))"
  by (cases acc)
    (auto simp add: processMarket_def contract_getMarket_eq due_def Let_def
      split: prod.splits sum.splits)

lemma processMarket_skip:
  assumes "\<And>m. fst (op_getMarket env i (world (snd acc))) = Inr m \<Longrightarrow>
             \<not> (isActive m \<and> due env m (snd (op_getMarket env i (world (snd acc)))))"
  shows "snd (processMarket env i acc) = snd (contract_getMarket env i (snd acc))"
  using assms
  by (cases acc)
    (auto simp add: processMarket_def contract_getMarket_eq due_def Let_def
      split: prod.splits sum.splits)

lemma processMarket_settle:
  assumes "fst (op_getMarket env i (world (snd acc))) = Inr m" and "isActive m"
    and "due env m (snd (op_getMarket env i (world (snd acc))))"
  shows "snd (processMarket env i acc) =
           snd (settleMarket env i m (snd (contract_getMarket env i (snd acc))))"
  using assms
  by (cases acc)
    (auto simp add: processMarket_def contract_getMarket_eq due_def Let_def
      split: prod.splits sum.splits)

lemma processMarket_isRunning:
  "isRunning (snd (processMarket env i acc)) = isRunning (snd acc)"
  using processMarket_cases [of env i acc]
  by (auto simp add: contract_getMarket_eq settleMarket_isRunning)

lemma processMarket_distinct:
  "distinct (map marketId (store (snd acc))) \<Longrightarrow>
   distinct (map marketId (store (snd (processMarket env i acc))))"
  using processMarket_cases [of env i acc]
    settleMarket_distinct [of "snd (contract_getMarket env i (snd acc))" env i]
  by (auto simp add: contract_getMarket_eq)

lemma settleMarket_no_participants:
  "\<forall>r\<in>set (store st). participants r = [] \<Longrightarrow>
   \<forall>r\<in>set (store (snd (settleMarket env i m st))). participants r = []"
  using settleMarket_store [of env i m st] by (auto simp add: participants_settlementRecord)

lemma processMarket_no_participants:
  "\<forall>r\<in>set (store (snd acc)). participants r = [] \<Longrightarrow>
   \<forall>r\<in>set (store (snd (processMarket env i acc))). participants r = []"
  using processMarket_cases [of env i acc]
    settleMarket_no_participants [of "snd (contract_getMarket env i (snd acc))" env i]
  by (auto simp add: contract_getMarket_eq)

lemma processMarket_calls:
  "\<exists>cs. calls (snd (processMarket env i acc)) = calls (snd acc) @ GetMarket i # cs \<and>
        (\<forall>c\<in>set cs. \<not> is_GetMarket c \<and> (\<forall>j. finalize_call j c \<longrightarrow> j = i))"
  using processMarket_cases [of env i acc]
proof
  assume "snd (processMarket env i acc) = snd (contract_getMarket env i (snd acc))"
  then show ?thesis by (simp add: contract_getMarket_eq)
next
  assume "\<exists>m. fst (op_getMarket env i (world (snd acc))) = Inr m \<and> isActive m \<and>
        due env m (snd (op_getMarket env i (world (snd acc)))) \<and>
        snd (processMarket env i acc) =
          snd (settleMarket env i m (snd (contract_getMarket env i (snd acc))))"
  then obtain m where
    eq: "snd (processMarket env i acc) =
          snd (settleMarket env i m (snd (contract_getMarket env i (snd acc))))"
    by blast
  obtain cs where
    cs: "calls (snd (settleMarket env i m (snd (contract_getMarket env i (snd acc))))) =
          calls (snd (contract_getMarket env i (snd acc))) @ EstimateGas i # cs"
    and ok: "\<forall>c\<in>set cs. \<not> is_GetMarket c \<and> (\<forall>j. finalize_call j c \<longrightarrow> j = i)"
    using settleMarket_calls [of env i m "snd (contract_getMarket env i (snd acc))"] by blast
  have "calls (snd (processMarket env i acc)) = calls (snd acc) @ GetMarket i # (EstimateGas i # cs)"
    using eq cs by (simp add: contract_getMarket_eq)
  moreover have "\<forall>c\<in>set (EstimateGas i # cs). \<not> is_GetMarket c \<and> (\<forall>j. finalize_call j c \<longrightarrow> j = i)"
    using ok by simp
  ultimately show ?thesis by blast
qed

lemma checkAndSettleMarkets_eq:
  "checkAndSettleMarkets env st =
     (case fst (op_marketCount env (world st)) of
        Inl e \<Rightarrow> snd (contract_marketCount env st)
      | Inr n \<Rightarrow>
          snd (fold (processMarket env) [0..<unat n] (0, snd (contract_marketCount env st))))"
  by (simp add: checkAndSettleMarkets_def contract_marketCount_eq markets_loop_fold
      split: sum.splits)

lemma calls_since_append: "calls st' = calls st @ cs \<Longrightarrow> calls_since st st' = cs"
  by (simp add: calls_since_def)

lemma fold_processMarket_isRunning:
  "isRunning (snd (fold (processMarket env) xs acc)) = isRunning (snd acc)"
  by (induction xs arbitrary: acc) (simp_all add: processMarket_isRunning)

lemma fold_processMarket_distinct:
  "distinct (map marketId (store (snd acc))) \<Longrightarrow>
   distinct (map marketId (store (snd (fold (processMarket env) xs acc))))"
  by (induction xs arbitrary: acc) (simp_all add: processMarket_distinct)

lemma fold_processMarket_no_participants:
  "\<forall>r\<in>set (store (snd acc)). participants r = [] \<Longrightarrow>
   \<forall>r\<in>set (store (snd (fold (processMarket env) xs acc))). participants r = []"
proof (induction xs arbitrary: acc)
  case Nil
  then show ?case by simp
next
  case (Cons x xs)
  from Cons.prems have "\<forall>r\<in>set (store (snd (processMarket env x acc))). participants r = []"
    by (rule processMarket_no_participants)
  then show ?case using Cons.IH by simp
qed

lemma fold_processMarket_calls:
  "\<exists>cs. calls (snd (fold (processMarket env) xs acc)) = calls (snd acc) @ cs \<and>
        filter is_GetMarket cs = map GetMarket xs \<and>
        (\<forall>c\<in>set cs. \<forall>j. finalize_call j c \<longrightarrow> j \<in> set xs)"
proof (induction xs arbitrary: acc)
  case Nil
  then show ?case by simp
next
  case (Cons x xs)
  obtain cs1 where
    c1: "calls (snd (processMarket env x acc)) = calls (snd acc) @ GetMarket x # cs1"
    and o1: "\<forall>c\<in>set cs1. \<not> is_GetMarket c \<and> (\<forall>j. finalize_call j c \<longrightarrow> j = x)"
    using processMarket_calls [of env x acc] by blast
  obtain cs2 where
    c2: "calls (snd (fold (processMarket env) xs (processMarket env x acc))) =
           calls (snd (processMarket env x acc)) @ cs2"
    and g2: "filter is_GetMarket cs2 = map GetMarket xs"
    and o2: "\<forall>c\<in>set cs2. \<forall>j. finalize_call j c \<longrightarrow> j \<in> set xs"
    using Cons.IH [of "processMarket env x acc"] by blast
  let ?cs = "GetMarket x # cs1 @ cs2"
  have "calls (snd (fold (processMarket env) (x # xs) acc)) = calls (snd acc) @ ?cs"
    using c1 c2 by simp
  moreover have "filter is_GetMarket ?cs = map GetMarket (x # xs)"
    using o1 g2 by (simp add: filter_empty_conv)
  moreover have "\<forall>c\<in>set ?cs. \<forall>j. finalize_call j c \<longrightarrow> j \<in> set (x # xs)"
    using o1 o2 by auto
  ultimately show ?case by blast
qed

lemma fold_processMarket_skips:
  assumes "\<forall>w m w'. op_getMarket env k w = (Inr m, w') \<longrightarrow> \<not> (isActive m \<and> due env m w')"
  shows "\<exists>cs. calls (snd (fold (processMarket env) xs acc)) = calls (snd acc) @ cs \<and>
           (\<forall>c\<in>set cs. \<not> finalize_call k c)"
proof (induction xs arbitrary: acc)
  case Nil
  then show ?case by simp
next
  case (Cons x xs)
  have "\<exists>cs1. calls (snd (processMarket env x acc)) = calls (snd acc) @ cs1 \<and>
          (\<forall>c\<in>set cs1. \<not> finalize_call k c)"
  proof (cases "x = k")
    case True
    have "snd (processMarket env k acc) = snd (contract_getMarket env k (snd acc))"
    proof (rule processMarket_skip)
      fix m
      assume "fst (op_getMarket env k (world (snd acc))) = Inr m"
      then have "op_getMarket env k (world (snd acc)) =
                   (Inr m, snd (op_getMarket env k (world (snd acc))))"
        by (simp add: prod_eq_iff)
      with assms show "\<not> (isActive m \<and> due env m (snd (op_getMarket env k (world (snd acc)))))"
        by blast
    qed
    then have "calls (snd (processMarket env x acc)) = calls (snd acc) @ [GetMarket k]"
      using True by (simp add: contract_getMarket_eq)
    then show ?thesis by auto
  next
    case False
    obtain cs1 where
      c1: "calls (snd (processMarket env x acc)) = calls (snd acc) @ GetMarket x # cs1"
      and o1: "\<forall>c\<in>set cs1. \<not> is_GetMarket c \<and> (\<forall>j. finalize_call j c \<longrightarrow> j = x)"
      using processMarket_calls [of env x acc] by blast
    have "\<forall>c\<in>set (GetMarket x # cs1). \<not> finalize_call k c"
      using o1 False by auto
    with c1 show ?thesis by blast
  qed
  then obtain cs1 where
    c1: "calls (snd (processMarket env x acc)) = calls (snd acc) @ cs1"
    and o1: "\<forall>c\<in>set cs1. \<not> finalize_call k c"
    by blast
  obtain cs2 where
    c2: "calls (snd (fold (processMarket env) xs (processMarket env x acc))) =
           calls (snd (processMarket env x acc)) @ cs2"
    and o2: "\<forall>c\<in>set cs2. \<not> finalize_call k c"
    using Cons.IH [of "processMarket env x acc"] by blast
  have "calls (snd (fold (processMarket env) (x # xs) acc)) = calls (snd acc) @ (cs1 @ cs2)"
    using c1 c2 by simp
  moreover have "\<forall>c\<in>set (cs1 @ cs2). \<not> finalize_call k c"
    using o1 o2 by auto
  ultimately show ?case by blast
qed

section \<open>Facts about the manual path, the status and the scheduler\<close>

lemma js_sub_exact: "\<bar>x - y\<bar> \<le> 2 ^ 53 \<Longrightarrow> js_sub x y = x - y"
  by (simp add: js_sub_def round53_exact)

lemma due_fixed_env:
  "unat (endTime m) \<le> 2 ^ 53 \<Longrightarrow> 0 \<le> clock \<Longrightarrow> clock div 1000 \<le> 2 ^ 53 \<Longrightarrow>
   due (fixed_env ms est rej clock) m w \<longleftrightarrow> int (unat (endTime m)) \<le> clock div 1000"
proof -
  assume a: "unat (endTime m) \<le> 2 ^ 53" and b: "0 \<le> clock" and c: "clock div 1000 \<le> 2 ^ 53"
  have n: "Number (endTime m) = int (unat (endTime m))" using a by (rule Number_exact)
  have "int (unat (endTime m)) \<le> int (2 ^ 53)" using a by (rule iffD2 [OF of_nat_le_iff])
  then have "int (unat (endTime m)) \<le> 2 ^ 53" by simp
  moreover have "0 \<le> clock div 1000" using b by simp
  ultimately have "\<bar>int (unat (endTime m)) - clock div 1000\<bar> \<le> 2 ^ 53" using c by linarith
  then have "js_sub (int (unat (endTime m))) (clock div 1000) =
      int (unat (endTime m)) - clock div 1000"
    by (rule js_sub_exact)
  then show ?thesis by (simp add: due_def n fixed_env_sel now_seconds_def)
qed

lemma manualSettle_eq:
  "manualSettle env i st =
     (case fst (op_getMarket env i (world st)) of
        Inl e \<Rightarrow> (Inl e, snd (contract_getMarket env i st))
      | Inr m \<Rightarrow>
          (Inr (fst (settleMarket env i m (snd (contract_getMarket env i st)))),
           snd (settleMarket env i m (snd (contract_getMarket env i st)))))"
  by (simp add: manualSettle_def contract_getMarket_eq split: sum.splits prod.splits)

lemma manualSettle_cases:
  "snd (manualSettle env i st) = snd (contract_getMarket env i st) \<or>
   (\<exists>m. snd (manualSettle env i st) = snd (settleMarket env i m (snd (contract_getMarket env i st))))"
  by (cases "fst (op_getMarket env i (world st))") (auto simp add: manualSettle_eq)

lemma manualSettle_distinct:
  "distinct (map marketId (store st)) \<Longrightarrow>
   distinct (map marketId (store (snd (manualSettle env i st))))"
  using manualSettle_cases [of env i st]
    settleMarket_distinct [of "snd (contract_getMarket env i st)" env i]
  by (auto simp add: contract_getMarket_eq)

lemma manualSettle_no_participants:
  "\<forall>r\<in>set (store st). participants r = [] \<Longrightarrow>
   \<forall>r\<in>set (store (snd (manualSettle env i st))). participants r = []"
  using manualSettle_cases [of env i st]
    settleMarket_no_participants [of "snd (contract_getMarket env i st)" env i]
  by (auto simp add: contract_getMarket_eq)

lemma checkAndSettleMarkets_distinct:
  "distinct (map marketId (store st)) \<Longrightarrow>
   distinct (map marketId (store (checkAndSettleMarkets env st)))"
  by (cases "fst (op_marketCount env (world st))")
    (simp_all add: checkAndSettleMarkets_eq fold_processMarket_distinct contract_marketCount_eq)

lemma checkAndSettleMarkets_no_participants:
  "\<forall>r\<in>set (store st). participants r = [] \<Longrightarrow>
   \<forall>r\<in>set (store (checkAndSettleMarkets env st)). participants r = []"
proof (cases "fst (op_marketCount env (world st))")
  case (Inl e)
  moreover assume "\<forall>r\<in>set (store st). participants r = []"
  ultimately show ?thesis by (simp add: checkAndSettleMarkets_eq contract_marketCount_eq)
next
  case (Inr n)
  assume "\<forall>r\<in>set (store st). participants r = []"
  then have "\<forall>r\<in>set (store (snd (0::nat, snd (contract_marketCount env st)))). participants r = []"
    by (simp add: contract_marketCount_eq)
  then have "\<forall>r\<in>set (store (snd (fold (processMarket env) [0..<unat n]
      (0, snd (contract_marketCount env st))))). participants r = []"
    by (rule fold_processMarket_no_participants)
  with Inr show ?thesis by (simp add: checkAndSettleMarkets_eq)
qed

lemma checkAndSettleMarkets_isRunning:
  "isRunning (checkAndSettleMarkets env st) = isRunning st"
  by (cases "fst (op_marketCount env (world st))")
    (simp_all add: checkAndSettleMarkets_eq fold_processMarket_isRunning contract_marketCount_eq)

lemma cron_callback_store:
  "store (cron_callback env st) = store st \<or>
   store (cron_callback env st) = store (checkAndSettleMarkets env (st\<lparr>isRunning := True\<rparr>))"
  by (simp add: cron_callback_def cron_callback_with_def cron_enter_def cron_exit_def)

lemma cron_callback_distinct:
  "distinct (map marketId (store st)) \<Longrightarrow>
   distinct (map marketId (store (cron_callback env st)))"
  using cron_callback_store [of env st]
    checkAndSettleMarkets_distinct [of "st\<lparr>isRunning := True\<rparr>" env]
  by auto

lemma cron_callback_no_participants:
  "\<forall>r\<in>set (store st). participants r = [] \<Longrightarrow>
   \<forall>r\<in>set (store (cron_callback env st)). participants r = []"
  using cron_callback_store [of env st]
    checkAndSettleMarkets_no_participants [of "st\<lparr>isRunning := True\<rparr>" env]
  by auto

lemma find_participants_address_empty:
  "\<forall>r\<in>set rs. participants r = [] \<Longrightarrow> find_participants_address a rs = []"
  by (simp add: find_participants_address_def filter_empty_conv)

lemma due_accepting: "due accepting_ledger (a_market 1600000000 3 3 500 True) w"
  unfolding accepting_ledger_def by (subst due_fixed_env) (simp_all add: a_market_sel)

lemma scan_accepting_ledger:
  "checkAndSettleMarkets accepting_ledger st =
     snd (settleMarket accepting_ledger 0 (a_market 1600000000 3 3 500 True)
       (snd (contract_getMarket accepting_ledger 0 (snd (contract_marketCount accepting_ledger st)))))"
proof -
  have n: "fst (op_marketCount accepting_ledger w) = Inr 1" for w
    by (simp add: accepting_ledger_def fixed_env_sel)
  have u: "[0..<unat (1::uint256)] = [0]" by simp
  have g: "fst (op_getMarket accepting_ledger 0 w) = Inr (a_market 1600000000 3 3 500 True)" for w
    by (simp add: accepting_ledger_def fixed_env_sel)
  have "snd (processMarket accepting_ledger 0 (0, snd (contract_marketCount accepting_ledger st))) =
      snd (settleMarket accepting_ledger 0 (a_market 1600000000 3 3 500 True)
       (snd (contract_getMarket accepting_ledger 0
          (snd (0::nat, snd (contract_marketCount accepting_ledger st))))))"
    by (rule processMarket_settle) (simp_all add: g a_market_sel due_accepting)
  then show ?thesis by (simp add: checkAndSettleMarkets_eq n u)
qed

lemma settleMarket_accepting_ledger:
  "settleMarket accepting_ledger 0 m st =
     (True,
      st\<lparr>store :=
           (if 0 \<notin> set (map marketId (store st))
            then store st @ [settlementRecord 0 m ''0xabc'' \<lparr>blockNumber = 7, gasUsed = 21000\<rparr> 1700000000000]
            else store st),
         calls := calls st @ [EstimateGas 0, ReleaseRewards 0 120000, Wait ''0xabc'', Save 0]\<rparr>)"
  unfolding accepting_ledger_def by (subst settleMarket_fixed_env [where g = 100000]) simp_all

lemma settled_once_eq:
  "settled_once =
     idle\<lparr>store := [settlementRecord 0 (a_market 1600000000 3 3 500 True) ''0xabc''
                        \<lparr>blockNumber = 7, gasUsed = 21000\<rparr> 1700000000000],
          calls := [EstimateGas 0, ReleaseRewards 0 120000, Wait ''0xabc'', Save 0]\<rparr>"
  by (simp add: settled_once_def settleMarket_accepting_ledger idle_def)

lemma save_duplicate:
  "marketId r \<in> set (map marketId (store st)) \<Longrightarrow> store (snd (save env r st)) = store st"
  using save_ok_fresh [of env r st] by (auto simp add: save_store)

lemma Number_less_exact:
  "unat a \<le> 2 ^ 53 \<Longrightarrow> unat b \<le> 2 ^ 53 \<Longrightarrow> Number a < Number b \<longleftrightarrow> a < b"
  by (simp add: Number_exact word_less_def)

lemma settlementRecord_votes:
  "yesVotes_n (settlementRecord i m h rc now) = Number (yesVotes m)"
  "noVotes_n (settlementRecord i m h rc now) = Number (noVotes m)"
  "winnerSide (settlementRecord i m h rc now) =
     (if Number (noVotes m) < Number (yesVotes m) then funny else lame)"
  by (simp_all add: settlementRecord_def Let_def)

lemma getSettlementStatus_eq:
  "getSettlementStatus env i st =
     (case fst (op_getMarket env i (world st)) of
        Inl e \<Rightarrow> Inl e
      | Inr m \<Rightarrow>
          Inr \<lparr> status_marketId = i,
                status_isActive = isActive m,
                timeLeft = js_sub (Number (endTime m))
                  (now_seconds (op_Date_now env (snd (op_getMarket env i (world st))))),
                readyForSettlement =
                  (js_sub (Number (endTime m))
                     (now_seconds (op_Date_now env (snd (op_getMarket env i (world st))))) \<le> 0 \<and>
                   isActive m),
                status_yesVotes = Number (yesVotes m),
                status_noVotes = Number (noVotes m),
                status_totalStaked = formatEther (totalStaked m) \<rparr>,
      st\<lparr>world := snd (op_getMarket env i (world st)), calls := calls st @ [GetMarket i]\<rparr>)"
  by (simp add: getSettlementStatus_def contract_getMarket_eq Let_def split: sum.splits)

lemma js_sub_le_0: "js_sub x y \<le> 0 \<longleftrightarrow> x \<le> y"
  by (simp add: js_sub_def round53_le_0)

lemma js_sub_Number_exact:
  "unat b \<le> 2 ^ 53 \<Longrightarrow> 0 \<le> y \<Longrightarrow> y \<le> 2 ^ 53 \<Longrightarrow> js_sub (Number b) y = int (unat b) - y"
proof -
  assume a: "unat b \<le> 2 ^ 53" and y: "0 \<le> y" "y \<le> 2 ^ 53"
  have "int (unat b) \<le> int (2 ^ 53)" using a by (rule iffD2 [OF of_nat_le_iff])
  then have "int (unat b) \<le> 2 ^ 53" by simp
  then have "\<bar>int (unat b) - y\<bar> \<le> 2 ^ 53" using y by linarith
  then have "js_sub (int (unat b)) y = int (unat b) - y" by (rule js_sub_exact)
  then show ?thesis using a by (simp only: Number_exact)
qed

lemma cron_callback_with_locked: "isRunning st \<Longrightarrow> cron_callback_with scan st = st"
  by (simp add: cron_callback_with_def cron_enter_def)

lemma cron_callback_with_unlocked:
  "\<not> isRunning st \<Longrightarrow>
   cron_callback_with scan st = cron_exit (snd (scan (st\<lparr>isRunning := True\<rparr>)))"
  by (simp add: cron_callback_with_def cron_enter_def split: prod.splits)

lemma cron_step_lock:
  assumes "cron_step e (st, k) = Some (st', k')" and "k \<le> 1" and "isRunning st \<longleftrightarrow> k = 1"
  shows "k' \<le> 1 \<and> (isRunning st' \<longleftrightarrow> k' = 1)"
  using assms
  by (cases e) (auto simp add: cron_enter_def cron_exit_def split: if_splits)

lemma cron_run_lock:
  "cron_run es (st, k) = Some (st', k') \<Longrightarrow> k \<le> 1 \<Longrightarrow> (isRunning st \<longleftrightarrow> k = 1) \<Longrightarrow>
   k' \<le> 1 \<and> (isRunning st' \<longleftrightarrow> k' = 1)"
proof (induction es arbitrary: st k)
  case Nil
  then show ?case by simp
next
  case (Cons e es)
  from Cons.prems(1) obtain st1 k1 where
    s: "cron_step e (st, k) = Some (st1, k1)" and r: "cron_run es (st1, k1) = Some (st', k')"
    by (auto split: option.splits)
  from s Cons.prems(2,3) have "k1 \<le> 1 \<and> (isRunning st1 \<longleftrightarrow> k1 = 1)"
    by (rule cron_step_lock)
  with r show ?case using Cons.IH by blast
qed

section \<open>Facts about the loop counter and about one iteration\<close>

lemma js_increment_exact: "i < 2 ^ 53 \<Longrightarrow> js_increment i = Suc i"
proof -
  assume "i < 2 ^ 53"
  then have "Suc i \<le> 2 ^ 53" by simp
  then have "int (Suc i) \<le> int (2 ^ 53)" by (rule iffD2 [OF of_nat_le_iff])
  then have "\<bar>int i + 1\<bar> \<le> 2 ^ 53" by simp
  then have "round53 (int i + 1) = int i + 1" by (rule round53_exact)
  then show ?thesis by (simp add: js_increment_def js_add_def)
qed

lemma js_increment_stuck: "js_increment 9007199254740992 = 9007199254740992"
proof -
  have "bit_length 9007199254740993 = Suc 53" by (rule bit_length_eq) simp_all
  then show ?thesis by (simp add: js_increment_def js_add_def round53_def Let_def)
qed

lemma markets_loop_Number_returns:
  "n \<le> 2 ^ 53 \<Longrightarrow> markets_loop_Number env n i acc = Some (markets_loop env n i acc)"
proof (induction "n - i" arbitrary: i acc)
  case 0
  then have "\<not> i < n" by simp
  then show ?case by (simp add: markets_loop_Number.simps markets_loop.simps)
next
  case (Suc d)
  then have lt: "i < n" and d: "d = n - Suc i" by simp_all
  with Suc.prems have "i < 2 ^ 53" by simp
  then have inc: "js_increment i = Suc i" by (rule js_increment_exact)
  have "markets_loop_Number env n i acc =
      markets_loop_Number env n (Suc i) (processMarket env i acc)"
    using lt inc by (subst markets_loop_Number.simps) simp
  also have "\<dots> = Some (markets_loop env n (Suc i) (processMarket env i acc))"
    using d Suc.prems by (rule Suc.hyps(1))
  also have "markets_loop env n (Suc i) (processMarket env i acc) = markets_loop env n i acc"
    using lt by (subst (2) markets_loop.simps) simp
  finally show ?case .
qed

lemma markets_loop_Number_never_returns:
  assumes "markets_loop_Number env n i acc = Some y"
  shows "\<not> (i \<le> 2 ^ 53 \<and> 2 ^ 53 < n)"
proof (rule markets_loop_Number.raw_induct
    [where P = "\<lambda>env n i acc y. \<not> (i \<le> 2 ^ 53 \<and> 2 ^ 53 < n)", OF _ assms])
  fix f env n i and acc y :: "nat \<times> 'a state"
  assume IH: "\<And>env n i acc y. f env n i acc = Some y \<Longrightarrow> \<not> (i \<le> 2 ^ 53 \<and> 2 ^ 53 < (n::nat))"
    and eq: "(if i < n then f env n (js_increment i) (processMarket env i acc) else Some acc) =
      Some y"
  show "\<not> (i \<le> 2 ^ 53 \<and> 2 ^ 53 < n)"
  proof
    assume a: "i \<le> 2 ^ 53 \<and> 2 ^ 53 < n"
    then have "i < n" by simp
    with eq have r: "f env n (js_increment i) (processMarket env i acc) = Some y" by simp
    have "js_increment i \<le> 2 ^ 53"
    proof (cases "i < 2 ^ 53")
      case True
      then show ?thesis by (simp add: js_increment_exact)
    next
      case False
      with a have "i = 9007199254740992" by simp
      then show ?thesis by (simp add: js_increment_stuck)
    qed
    moreover from IH [OF r] have "\<not> (js_increment i \<le> 2 ^ 53 \<and> 2 ^ 53 < n)" .
    ultimately show False using a by blast
  qed
qed

lemma markets_loop_split:
  "k < n \<Longrightarrow>
   markets_loop env n 0 acc = markets_loop env n (Suc k) (processMarket env k (markets_loop env k 0 acc))"
proof -
  assume k: "k < n"
  then have "[0..<n] = [0..<k] @ k # [Suc k..<n]"
    by (metis less_imp_le_nat upt_add_eq_append upt_conv_Cons le_add_diff_inverse zero_le)
  then show ?thesis by (simp add: markets_loop_fold)
qed

lemma settleMarket_store_grows:
  "set (store st) \<subseteq> set (store (snd (settleMarket env i m st)))"
  using settleMarket_store [of env i m st] by auto

lemma processMarket_store_grows:
  "set (store (snd acc)) \<subseteq> set (store (snd (processMarket env i acc)))"
  using processMarket_cases [of env i acc]
proof
  assume "snd (processMarket env i acc) = snd (contract_getMarket env i (snd acc))"
  then show ?thesis by (simp add: contract_getMarket_eq)
next
  assume "\<exists>m. fst (op_getMarket env i (world (snd acc))) = Inr m \<and> isActive m \<and>
        due env m (snd (op_getMarket env i (world (snd acc)))) \<and>
        snd (processMarket env i acc) =
          snd (settleMarket env i m (snd (contract_getMarket env i (snd acc))))"
  then obtain m where
    "snd (processMarket env i acc) =
       snd (settleMarket env i m (snd (contract_getMarket env i (snd acc))))"
    by blast
  then show ?thesis
    using settleMarket_store_grows [of "snd (contract_getMarket env i (snd acc))" env i m]
    by (simp add: contract_getMarket_eq)
qed

lemma fold_processMarket_store_grows:
  "set (store (snd acc)) \<subseteq> set (store (snd (fold (processMarket env) xs acc)))"
proof (induction xs arbitrary: acc)
  case Nil
  show ?case by simp
next
  case (Cons x xs)
  have "set (store (snd acc)) \<subseteq> set (store (snd (processMarket env x acc)))"
    by (rule processMarket_store_grows)
  also have "\<dots> \<subseteq> set (store (snd (fold (processMarket env) xs (processMarket env x acc))))"
    by (rule Cons.IH)
  finally show ?case by simp
qed

lemma processMarket_finalizes:
  assumes "op_getMarket env k (world st) = (Inr m, w1)" and "isActive m" and "due env m w1"
    and "op_estimateGas env k w1 = (Inr g, w2)"
    and "op_releaseRewards env k (g * 120 div 100) w2 = (Inr tx, w3)"
    and "op_wait env tx w3 = (Inr rc, w4)"
  shows "fst (processMarket env k (c, st)) = Suc c"
    and "calls (snd (processMarket env k (c, st))) =
           calls st @ [GetMarket k, EstimateGas k, ReleaseRewards k (g * 120 div 100),
                       Wait (hash tx), Save k]"
    and "isRunning (snd (processMarket env k (c, st))) = isRunning st"
  using assms
  by (simp_all add: processMarket_def contract_getMarket_def due_def Let_def settleMarket_def
      ledger_calls storeSettlementRecord_calls storeSettlementRecord_isRunning)

lemma processMarket_records:
  assumes "op_getMarket env k (world st) = (Inr m, w1)" and "isActive m" and "due env m w1"
    and "op_estimateGas env k w1 = (Inr g, w2)"
    and "op_releaseRewards env k (g * 120 div 100) w2 = (Inr tx, w3)"
    and "op_wait env tx w3 = (Inr rc, w4)"
    and "op_insert_rejected env (settlementRecord k m (hash tx) rc (op_Date_now env w4)) w4 =
           (None, w5)"
    and "k \<notin> set (map marketId (store st))"
  shows "processMarket env k (c, st) =
           (Suc c,
            st\<lparr>world := w5,
               calls := calls st @ [GetMarket k, EstimateGas k,
                 ReleaseRewards k (g * 120 div 100), Wait (hash tx), Save k],
               store := store st @ [settlementRecord k m (hash tx) rc (op_Date_now env w4)]\<rparr>)"
  using assms
  by (simp add: processMarket_def contract_getMarket_def due_def Let_def settleMarket_def
      ledger_calls storeSettlementRecord_def save_def marketId_settlementRecord)

lemma checkAndSettleMarkets_Number_returns:
  assumes "\<forall>n. fst (op_marketCount env (world st)) = Inr n \<longrightarrow> unat n \<le> 2 ^ 53"
  shows "checkAndSettleMarkets_Number env st = Some (checkAndSettleMarkets env st)"
proof (cases "fst (op_marketCount env (world st))")
  case (Inl e)
  then show ?thesis
    by (simp add: checkAndSettleMarkets_Number_def checkAndSettleMarkets_def
        contract_marketCount_eq)
next
  case (Inr n)
  with assms have "unat n \<le> 2 ^ 53" by simp
  then have "markets_loop_Number env (unat n) 0 (0, snd (contract_marketCount env st)) =
      Some (markets_loop env (unat n) 0 (0, snd (contract_marketCount env st)))"
    by (rule markets_loop_Number_returns)
  with Inr show ?thesis
    by (simp add: checkAndSettleMarkets_Number_def checkAndSettleMarkets_def
        contract_marketCount_eq)
qed

lemma scan_before_fold:
  "scan_before env st k = fold (processMarket env) [0..<k] (0, snd (contract_marketCount env st))"
  by (simp add: scan_before_def markets_loop_fold)

lemma settleMarket_fixed_env_estimate_fails:
  "est i = Inl e \<Longrightarrow>
   settleMarket (fixed_env ms est rej clock) i m st =
     (False, st\<lparr>calls := calls st @ [EstimateGas i]\<rparr>)"
  by (simp add: settleMarket_def ledger_calls fixed_env_sel)

lemma processMarket_eq:
  "processMarket env i (c, st) =
     (case fst (op_getMarket env i (world st)) of
        Inl e \<Rightarrow> (c, snd (contract_getMarket env i st))
      | Inr m \<Rightarrow>
          if isActive m \<and> due env m (snd (op_getMarket env i (world st)))
          then (if fst (settleMarket env i m (snd (contract_getMarket env i st))) then c + 1 else c,
                snd (settleMarket env i m (snd (contract_getMarket env i st))))
          else (c, snd (contract_getMarket env i st)))"
  by (simp add: processMarket_def contract_getMarket_eq due_def Let_def
      split: sum.splits prod.splits)

lemma due_failing: "due failing_ledger (a_market 1600000000 3 1 500 True) w"
  unfolding failing_ledger_def by (subst due_fixed_env) (simp_all add: a_market_sel)

lemma scan_before_failing_ledger:
  "scan_before failing_ledger idle 2 =
     (0, idle\<lparr>calls := [MarketCount, GetMarket 0, GetMarket 1, EstimateGas 1]\<rparr>)"
proof -
  have u: "[0..<2] = [0, Suc 0]" by (simp add: upt_rec)
  have g0: "fst (op_getMarket failing_ledger 0 w) = Inl (Error ''missing revert data'')" for w
    by (simp add: failing_ledger_def fixed_env_sel)
  have g1: "fst (op_getMarket failing_ledger (Suc 0) w) = Inr (a_market 1600000000 3 1 500 True)" for w
    by (simp add: failing_ledger_def fixed_env_sel)
  have s1: "settleMarket failing_ledger (Suc 0) m s = (False, s\<lparr>calls := calls s @ [EstimateGas (Suc 0)]\<rparr>)"
    for m s
    unfolding failing_ledger_def
    by (rule settleMarket_fixed_env_estimate_fails [where e = "Error ''cannot estimate gas''"]) simp
  have w: "snd (op_getMarket failing_ledger i w) = ()" "snd (op_marketCount failing_ledger w) = ()" for i w
    by simp_all
  show ?thesis
    by (simp add: scan_before_fold u processMarket_eq g0 g1 s1 due_failing a_market_sel
        contract_getMarket_eq contract_marketCount_eq idle_def)
qed

section \<open>The store does not steer the service\<close>

lemma same_but_store_refl: "same_but_store (st\<lparr>store := s\<rparr>) st"
  by (simp add: same_but_store_def)

lemma save_same_but_store:
  "same_but_store a b \<Longrightarrow> same_but_store (snd (save env r a)) (snd (save env r b))"
  by (simp add: same_but_store_def save_def Let_def split: prod.splits option.splits)

lemma storeSettlementRecord_same_but_store:
  "same_but_store a b \<Longrightarrow>
   same_but_store (storeSettlementRecord env i m h rc a) (storeSettlementRecord env i m h rc b)"
proof -
  assume s: "same_but_store a b"
  then have "world a = world b" by (simp add: same_but_store_def)
  then show ?thesis
    unfolding storeSettlementRecord_def using save_same_but_store [OF s] by simp
qed

lemma settleMarket_same_but_store:
  assumes "same_but_store a b"
  shows "fst (settleMarket env i m a) = fst (settleMarket env i m b) \<and>
         same_but_store (snd (settleMarket env i m a)) (snd (settleMarket env i m b))"
proof -
  from assms have w: "world a = world b" and c: "calls a = calls b" and r: "isRunning a = isRunning b"
    by (simp_all add: same_but_store_def)
  show ?thesis
  proof (cases "op_estimateGas env i (world b)")
    case (Pair r1 w1)
    show ?thesis
    proof (cases r1)
      case (Inl e)
      with Pair w c r show ?thesis
        by (simp add: settleMarket_def ledger_calls same_but_store_def)
    next
      case (Inr g)
      note g = this
      show ?thesis
      proof (cases "op_releaseRewards env i (g * 120 div 100) w1")
        case (Pair r2 w2)
        note p2 = this
        show ?thesis
        proof (cases r2)
          case (Inl e)
          with \<open>op_estimateGas env i (world b) = (r1, w1)\<close> g p2 w c r show ?thesis
            by (simp add: settleMarket_def ledger_calls same_but_store_def)
        next
          case (Inr tx)
          note tx = this
          show ?thesis
          proof (cases "op_wait env tx w2")
            case (Pair r3 w3)
            note p3 = this
            show ?thesis
            proof (cases r3)
              case (Inl e)
              with \<open>op_estimateGas env i (world b) = (r1, w1)\<close> g p2 tx p3 w c r show ?thesis
                by (simp add: settleMarket_def ledger_calls same_but_store_def)
            next
              case (Inr rc)
              let ?a3 = "a\<lparr>world := w1, calls := calls a @ [EstimateGas i]\<rparr>
                \<lparr>world := w2, calls := calls a @ [EstimateGas i] @ [ReleaseRewards i (g * 120 div 100)]\<rparr>
                \<lparr>world := w3, calls := calls a @ [EstimateGas i] @ [ReleaseRewards i (g * 120 div 100)] @ [Wait (hash tx)]\<rparr>"
              let ?b3 = "b\<lparr>world := w1, calls := calls b @ [EstimateGas i]\<rparr>
                \<lparr>world := w2, calls := calls b @ [EstimateGas i] @ [ReleaseRewards i (g * 120 div 100)]\<rparr>
                \<lparr>world := w3, calls := calls b @ [EstimateGas i] @ [ReleaseRewards i (g * 120 div 100)] @ [Wait (hash tx)]\<rparr>"
              have s3: "same_but_store ?a3 ?b3" using c r by (simp add: same_but_store_def)
              have ea: "settleMarket env i m a = (True, storeSettlementRecord env i m (hash tx) rc ?a3)"
                using \<open>op_estimateGas env i (world b) = (r1, w1)\<close> g p2 tx p3 Inr w
                by (simp add: settleMarket_def ledger_calls)
              have eb: "settleMarket env i m b = (True, storeSettlementRecord env i m (hash tx) rc ?b3)"
                using \<open>op_estimateGas env i (world b) = (r1, w1)\<close> g p2 tx p3 Inr
                by (simp add: settleMarket_def ledger_calls)
              show ?thesis
                unfolding ea eb using storeSettlementRecord_same_but_store [OF s3] by simp
            qed
          qed
        qed
      qed
    qed
  qed
qed

lemma processMarket_same_but_store:
  assumes "same_but_store a b"
  shows "fst (processMarket env i (c, a)) = fst (processMarket env i (c, b)) \<and>
         same_but_store (snd (processMarket env i (c, a))) (snd (processMarket env i (c, b)))"
proof -
  from assms have w: "world a = world b" and cl: "calls a = calls b" and r: "isRunning a = isRunning b"
    by (simp_all add: same_but_store_def)
  let ?a1 = "snd (contract_getMarket env i a)" and ?b1 = "snd (contract_getMarket env i b)"
  have s1: "same_but_store ?a1 ?b1"
    using w cl r by (simp add: contract_getMarket_eq same_but_store_def)
  have w1: "world ?a1 = world ?b1" using s1 by (simp add: same_but_store_def)
  show ?thesis
  proof (cases "fst (op_getMarket env i (world b))")
    case (Inl e)
    then show ?thesis using w s1 by (simp add: processMarket_def contract_getMarket_eq)
  next
    case (Inr m)
    show ?thesis
    proof (cases "isActive m \<and> due env m (world ?b1)")
      case False
      then show ?thesis
        using Inr w s1 w1
        by (auto simp add: processMarket_def contract_getMarket_eq due_def Let_def)
    next
      case True
      have pa: "processMarket env i (c, a) =
          (if fst (settleMarket env i m ?a1) then c + 1 else c, snd (settleMarket env i m ?a1))"
        using True Inr w w1
        by (simp add: processMarket_def contract_getMarket_eq due_def Let_def split: prod.splits)
      have pb: "processMarket env i (c, b) =
          (if fst (settleMarket env i m ?b1) then c + 1 else c, snd (settleMarket env i m ?b1))"
        using True Inr
        by (simp add: processMarket_def contract_getMarket_eq due_def Let_def split: prod.splits)
      show ?thesis
        unfolding pa pb using settleMarket_same_but_store [OF s1, of env i m] by simp
    qed
  qed
qed

lemma fold_processMarket_same_but_store:
  "same_but_store a b \<Longrightarrow>
   fst (fold (processMarket env) xs (c, a)) = fst (fold (processMarket env) xs (c, b)) \<and>
   same_but_store (snd (fold (processMarket env) xs (c, a))) (snd (fold (processMarket env) xs (c, b)))"
proof (induction xs arbitrary: a b c)
  case Nil
  then show ?case by simp
next
  case (Cons x xs)
  obtain c1 a1 where pa: "processMarket env x (c, a) = (c1, a1)" by (cases "processMarket env x (c, a)")
  obtain c2 b1 where pb: "processMarket env x (c, b) = (c2, b1)" by (cases "processMarket env x (c, b)")
  from processMarket_same_but_store [OF Cons.prems, of env x c] pa pb
  have "c1 = c2" and "same_but_store a1 b1" by simp_all
  then show ?case using Cons.IH [of a1 b1 c2] pa pb by simp
qed

lemma checkAndSettleMarkets_same_but_store:
  assumes "same_but_store a b"
  shows "same_but_store (checkAndSettleMarkets env a) (checkAndSettleMarkets env b)"
proof -
  from assms have w: "world a = world b"
    and s1: "same_but_store (snd (contract_marketCount env a)) (snd (contract_marketCount env b))"
    by (simp_all add: same_but_store_def contract_marketCount_eq)
  show ?thesis
  proof (cases "fst (op_marketCount env (world b))")
    case (Inl e)
    then show ?thesis using w s1 by (simp add: checkAndSettleMarkets_eq)
  next
    case (Inr n)
    then show ?thesis
      using w fold_processMarket_same_but_store [OF s1, of env "[0..<unat n]" 0]
      by (simp add: checkAndSettleMarkets_eq)
  qed
qed

lemma manualSettle_same_but_store:
  assumes "same_but_store a b"
  shows "fst (manualSettle env i a) = fst (manualSettle env i b) \<and>
         same_but_store (snd (manualSettle env i a)) (snd (manualSettle env i b))"
proof -
  from assms have w: "world a = world b"
    and s1: "same_but_store (snd (contract_getMarket env i a)) (snd (contract_getMarket env i b))"
    by (simp_all add: same_but_store_def contract_getMarket_eq)
  show ?thesis
  proof (cases "fst (op_getMarket env i (world b))")
    case (Inl e)
    then show ?thesis using w s1 by (simp add: manualSettle_eq)
  next
    case (Inr m)
    then show ?thesis
      using w settleMarket_same_but_store [OF s1, of env i m] by (simp add: manualSettle_eq)
  qed
qed

lemma cron_callback_same_but_store:
  assumes "same_but_store a b"
  shows "same_but_store (cron_callback env a) (cron_callback env b)"
proof (cases "isRunning b")
  case True
  with assms have "isRunning a" by (simp add: same_but_store_def)
  with True assms show ?thesis
    by (simp add: cron_callback_def cron_callback_with_locked)
next
  case False
  with assms have na: "\<not> isRunning a" by (simp add: same_but_store_def)
  from assms have "same_but_store (a\<lparr>isRunning := True\<rparr>) (b\<lparr>isRunning := True\<rparr>)"
    by (simp add: same_but_store_def)
  then have "same_but_store (checkAndSettleMarkets env (a\<lparr>isRunning := True\<rparr>))
      (checkAndSettleMarkets env (b\<lparr>isRunning := True\<rparr>))"
    by (rule checkAndSettleMarkets_same_but_store)
  then show ?thesis
    using False na
    by (simp add: cron_callback_def cron_callback_with_unlocked cron_exit_def same_but_store_def)
qed

lemma manualSettle_starts_settlement:
  "fst (op_getMarket env i (world st)) = Inr m \<Longrightarrow>
   \<exists>cs. calls (snd (manualSettle env i st)) = calls st @ GetMarket i # EstimateGas i # cs"
  using settleMarket_calls [of env i m "snd (contract_getMarket env i st)"]
  by (auto simp add: manualSettle_eq contract_getMarket_eq)

lemma processMarket_starts_settlement:
  assumes "op_getMarket env k (world st) = (Inr m, w')" and "isActive m" and "due env m w'"
  shows "\<exists>cs. calls (snd (processMarket env k (c, st))) = calls st @ GetMarket k # EstimateGas k # cs"
proof -
  have "snd (processMarket env k (c, st)) =
      snd (settleMarket env k m (snd (contract_getMarket env k (snd (c, st)))))"
    by (rule processMarket_settle) (simp_all add: assms)
  then show ?thesis
    using settleMarket_calls [of env k m "snd (contract_getMarket env k st)"]
    by (auto simp add: contract_getMarket_eq)
qed

section \<open>Facts about the reward split\<close>

text \<open>
  Up to \<open>2 ^ 53\<close> wei the two amounts of a record add up to the pool, and the pool of
  \<open>101\<close> is split into \<open>5\<close> and \<open>96\<close>; the creator's share itself can already be one
  wei too high below \<open>2 ^ 53\<close>.
\<close>

lemma round53_le_double: "0 \<le> m \<Longrightarrow> round53 m \<le> 2 * m"
proof (cases "bit_length (nat \<bar>m\<bar>) \<le> 53")
  case True
  moreover assume "0 \<le> m"
  ultimately show ?thesis by (simp add: round53_def Let_def)
next
  case False
  assume m: "0 \<le> m"
  define a where "a = nat \<bar>m\<bar>"
  define s where "s = bit_length a - 53"
  define q where "q = a div 2 ^ s"
  define q' where "q' = (if 2 ^ (s - 1) < a mod 2 ^ s \<or> (a mod 2 ^ s = 2 ^ (s - 1) \<and> odd q)
    then q + 1 else q)"
  from False have "bit_length a - 1 < bit_length a" by (simp add: a_def)
  then have "2 ^ (bit_length a - 1) \<le> a" by (rule bit_length_gt)
  moreover have "(2::nat) ^ s \<le> 2 ^ (bit_length a - 1)"
    unfolding s_def by (rule power_increasing) auto
  ultimately have "2 ^ s \<le> a" by (rule order_trans [rotated])
  then have q1: "1 \<le> q" unfolding q_def by (simp add: Suc_le_eq div_greater_zero_iff)
  have "q' \<le> 2 * q" using q1 by (simp add: q'_def)
  then have "q' * 2 ^ s \<le> 2 * (q * 2 ^ s)" by simp
  also have "q * 2 ^ s \<le> a" unfolding q_def by simp
  finally have le: "q' * 2 ^ s \<le> 2 * a" by simp
  have r: "round53 m = sgn m * int (q' * 2 ^ s)"
    using False
    unfolding round53_def a_def [symmetric] Let_def s_def [symmetric] q_def [symmetric]
      q'_def [symmetric]
    by simp
  have "0 < (2::nat) ^ s" by simp
  with \<open>2 ^ s \<le> a\<close> have "a \<noteq> 0" by linarith
  then have "0 < m" using m by (simp add: a_def)
  then have "round53 m = int (q' * 2 ^ s)" using r by simp
  also have "\<dots> \<le> int (2 * a)" using le by (rule iffD2 [OF of_nat_le_iff])
  also have "\<dots> = 2 * m" using m by (simp add: a_def)
  finally show ?thesis .
qed

lemma creatorReward_bounds:
  assumes "0 \<le> x"
  shows "0 \<le> Math_floor56 (js_mul_0_05 x)" and "Math_floor56 (js_mul_0_05 x) \<le> x"
proof -
  have p: "0 \<le> x * literal_0_05" using assms by (simp add: literal_0_05_def)
  then have "0 \<le> round53 (x * literal_0_05)" by (rule round53_nonneg)
  then show "0 \<le> Math_floor56 (js_mul_0_05 x)"
    by (simp add: Math_floor56_def js_mul_0_05_def pos_imp_zdiv_nonneg_iff)
  have "round53 (x * literal_0_05) \<le> 2 * (x * literal_0_05)" using p by (rule round53_le_double)
  also have "\<dots> \<le> x * 2 ^ 56" using assms by (simp add: literal_0_05_def)
  finally have "round53 (x * literal_0_05) div 2 ^ 56 \<le> (x * 2 ^ 56) div 2 ^ 56"
    by (rule zdiv_mono1) simp
  then show "Math_floor56 (js_mul_0_05 x) \<le> x"
    by (simp add: Math_floor56_def js_mul_0_05_def)
qed

lemma rewards_add_up_to_2_53:
  assumes "unat (totalStaked m) \<le> 2 ^ 53"
  shows "creatorReward (settlementRecord i m h rc now) + voterRewards (settlementRecord i m h rc now) =
           int (totalStaked_text (settlementRecord i m h rc now))"
proof -
  let ?x = "int (unat (totalStaked m))"
  let ?c = "Math_floor56 (js_mul_0_05 ?x)"
  have n: "Number (totalStaked m) = ?x" using assms by (rule Number_exact)
  have "?x \<le> int (2 ^ 53)" using assms by (rule iffD2 [OF of_nat_le_iff])
  then have x: "?x \<le> 2 ^ 53" by simp
  have "0 \<le> ?c" "?c \<le> ?x" by (rule creatorReward_bounds, simp)+
  with x have "\<bar>?x - ?c\<bar> \<le> 2 ^ 53" by linarith
  then have "js_sub ?x ?c = ?x - ?c" by (rule js_sub_exact)
  then show ?thesis by (simp add: settlementRecord_rewards n)
qed

lemma rewards_of_101:
  "creatorReward (settlementRecord i (a_market t y n 101 a) h rc now) = 5 \<and>
   voterRewards (settlementRecord i (a_market t y n 101 a) h rc now) = 96"
proof -
  have n: "Number 101 = 101" by (simp add: Number_exact)
  have "bit_length 363890849891536097 = Suc 58" by (rule bit_length_eq) simp_all
  then have c: "Math_floor56 (js_mul_0_05 101) = 5"
    by (simp add: Math_floor56_def js_mul_0_05_def literal_0_05_def round53_def Let_def)
  have v: "js_sub 101 5 = 96" by (simp add: js_sub_exact)
  show ?thesis by (simp add: settlementRecord_rewards a_market_sel n c v)
qed

lemma creatorReward_7000000000000019:
  "Math_floor56 (js_mul_0_05 (Number 7000000000000019)) = 350000000000001"
proof -
  have n: "Number 7000000000000019 = 7000000000000019" by (simp add: Number_exact)
  have "bit_length 25220157913274847454714336031543 = Suc 104" by (rule bit_length_eq) simp_all
  then show ?thesis
    by (simp add: n Math_floor56_def js_mul_0_05_def literal_0_05_def round53_def Let_def)
qed

section \<open>Reward split\<close>

text \<open>
  C1. The claim is that the persisted record has \<open>creatorReward = floor (totalStaked * 5 / 100)\<close>
  in exact integer arithmetic and \<open>creatorReward + voterRewards = totalStaked\<close>, for
  arbitrarily large \<open>totalStaked\<close>. \<^verbatim>\<open>storeSettlementRecord\<close> computes both amounts
  on Numbers: for a pool of \<open>1000000000000000100\<close> wei (a little over one ether) the
  record that it saves has \<open>creatorReward = 50000000000000008\<close>, where the exact amount
  is \<open>50000000000000005\<close>, and \<open>voterRewards = 950000000000000128\<close>, so that the two
  add up to \<open>1000000000000000136\<close>. For a pool of \<open>7000000000000019\<close> wei, which a
  Number still holds exactly, the record has \<open>creatorReward = 350000000000001\<close>, where
  the exact amount is \<open>350000000000000\<close>.
\<close>

theorem rewards_lose_precision:
  "map (\<lambda>r. (totalStaked_text r, creatorReward r, voterRewards r))
     (store (snd (settleMarket (fixed_env [] (\<lambda>j. Inr 100000) None 1700000000000) 0
        (a_market 1600000000 3 1 1000000000000000100 True) idle))) =
   [(1000000000000000100, 50000000000000008, 950000000000000128)] \<and>
   creatorReward (settlementRecord 0 (a_market 1600000000 3 1 7000000000000019 True) ''0xabc''
     \<lparr>blockNumber = 7, gasUsed = 21000\<rparr> 1700000000000) = 350000000000001"
proof -
  have n: "Number 1000000000000000100 = 1000000000000000128"
  proof -
    have "bit_length 1000000000000000100 = Suc 59" by (rule bit_length_eq) simp_all
    then show ?thesis by (simp add: Number_def round53_def Let_def)
  qed
  have c: "Math_floor56 (js_mul_0_05 1000000000000000128) = 50000000000000008"
  proof -
    have "bit_length 3602879701896397461168601842738816 = Suc 111"
      by (rule bit_length_eq) simp_all
    then show ?thesis
      by (simp add: Math_floor56_def js_mul_0_05_def literal_0_05_def round53_def Let_def)
  qed
  have v: "js_sub 1000000000000000128 50000000000000008 = 950000000000000128"
  proof -
    have "bit_length 950000000000000120 = Suc 59" by (rule bit_length_eq) simp_all
    then show ?thesis by (simp add: js_sub_def round53_def Let_def)
  qed
  show ?thesis
    by (simp add: settleMarket_fixed_env [where g = 100000] idle_def settlementRecord_rewards
        a_market_sel n c v creatorReward_7000000000000019)
qed


section \<open>The eligibility gate of the scan\<close>

text \<open>
  C5. A market whose snapshot has \<open>active = true\<close> and a deadline in the future
  (\<open>timeLeft > 0\<close>, that is, not \<open>due\<close>) is never finalised by the scheduled scan, and a
  market whose snapshot has \<open>active = false\<close> is skipped: if every snapshot that the ledger
  returns for market \<open>k\<close> is inactive or not yet due, then none of the calls that
  \<^verbatim>\<open>checkAndSettleMarkets\<close> makes is the gas estimate or the submission of
  \<^verbatim>\<open>releaseRewards\<close> for \<open>k\<close>; and an iteration of the loop that fetches such a
  snapshot does nothing but the fetch.
\<close>

theorem scan_never_finalizes_ineligible:
  "((\<forall>w m w'. op_getMarket env k w = (Inr m, w') \<longrightarrow> \<not> isActive m \<or> \<not> due env m w') \<longrightarrow>
      (\<forall>c\<in>set (calls_since st (checkAndSettleMarkets env st)). \<not> finalize_call k c)) \<and>
   (op_getMarket env k (world st') = (Inr m', w'') \<and> (\<not> isActive m' \<or> \<not> due env m' w'') \<longrightarrow>
      processMarket env k (settledCount, st') =
        (settledCount, st'\<lparr>world := w'', calls := calls st' @ [GetMarket k]\<rparr>))"
proof (intro conjI impI)
  assume "op_getMarket env k (world st') = (Inr m', w'') \<and> (\<not> isActive m' \<or> \<not> due env m' w'')"
  then show "processMarket env k (settledCount, st') =
      (settledCount, st'\<lparr>world := w'', calls := calls st' @ [GetMarket k]\<rparr>)"
    by (auto simp add: processMarket_def contract_getMarket_eq due_def Let_def)
next
  assume assms: "\<forall>w m w'. op_getMarket env k w = (Inr m, w') \<longrightarrow> \<not> isActive m \<or> \<not> due env m w'"
  show "\<forall>c\<in>set (calls_since st (checkAndSettleMarkets env st)). \<not> finalize_call k c"
  proof (cases "fst (op_marketCount env (world st))")
  case (Inl e)
  then have "calls (checkAndSettleMarkets env st) = calls st @ [MarketCount]"
    by (simp add: checkAndSettleMarkets_eq contract_marketCount_eq)
  then have "calls_since st (checkAndSettleMarkets env st) = [MarketCount]"
    by (rule calls_since_append)
  then show ?thesis by simp
next
  case (Inr n)
  let ?st1 = "snd (contract_marketCount env st)"
  from assms have "\<forall>w m w'. op_getMarket env k w = (Inr m, w') \<longrightarrow> \<not> (isActive m \<and> due env m w')"
    by blast
  then obtain cs where
    c: "calls (snd (fold (processMarket env) [0..<unat n] (0, ?st1))) =
          calls (snd (0::nat, ?st1)) @ cs"
    and o: "\<forall>c\<in>set cs. \<not> finalize_call k c"
    using fold_processMarket_skips [of env k "[0..<unat n]" "(0, ?st1)"] by blast
  have "calls (checkAndSettleMarkets env st) = calls st @ (MarketCount # cs)"
    using Inr c by (simp add: checkAndSettleMarkets_eq contract_marketCount_eq)
  then have "calls_since st (checkAndSettleMarkets env st) = MarketCount # cs"
    by (rule calls_since_append)
  with o show ?thesis by simp
  qed
qed

theorem scan_never_finalizes_ineligible_witness:
  "list_all (\<lambda>c. \<not> finalize_call 0 c) (calls_since idle (checkAndSettleMarkets waiting_ledger idle)) \<and>
   list_all (\<lambda>c. \<not> finalize_call 1 c) (calls_since idle (checkAndSettleMarkets waiting_ledger idle)) \<and>
   processMarket waiting_ledger 1 (0, idle) = (0, idle\<lparr>calls := [GetMarket 1]\<rparr>)"
proof -
  have d: "\<not> due waiting_ledger (a_market 2000000000 3 1 500 True) w" for w
    unfolding waiting_ledger_def by (subst due_fixed_env) (simp_all add: a_market_sel)
  have h0: "\<forall>w m w'. op_getMarket waiting_ledger 0 w = (Inr m, w') \<longrightarrow>
      \<not> isActive m \<or> \<not> due waiting_ledger m w'"
    using d by (auto simp add: waiting_ledger_def fixed_env_sel)
  have h1: "\<forall>w m w'. op_getMarket waiting_ledger 1 w = (Inr m, w') \<longrightarrow>
      \<not> isActive m \<or> \<not> due waiting_ledger m w'"
    by (auto simp add: waiting_ledger_def fixed_env_sel a_market_sel)
  have g: "op_getMarket waiting_ledger 1 (world idle) = (Inr (a_market 1600000000 2 5 700 False), ())"
    by (simp add: waiting_ledger_def fixed_env_sel)
  have i: "\<not> isActive (a_market 1600000000 2 5 700 False)" by (simp add: a_market_sel)
  have w: "idle\<lparr>world := (), calls := calls idle @ [GetMarket 1]\<rparr> = idle\<lparr>calls := [GetMarket 1]\<rparr>"
    by (simp add: idle_def)
  show ?thesis
    using h0 h1 g i w
      scan_never_finalizes_ineligible [where env = waiting_ledger and k = 0 and st = idle
        and st' = idle and m' = "a_market 1600000000 2 5 700 False" and w'' = "()"]
      scan_never_finalizes_ineligible [where env = waiting_ledger and k = 1 and st = idle
        and st' = idle and m' = "a_market 1600000000 2 5 700 False" and w'' = "()"
        and settledCount = 0]
    by (simp add: list_all_iff)
qed

section \<open>Failures do not end the scan\<close>

text \<open>
  C6. Whatever fails for one market (its snapshot fetch, its gas estimate or any later step
  of its settlement), the scan goes on. Once \<^verbatim>\<open>marketCount\<close> has answered \<open>n\<close> (at most
  \<open>2 ^ 53\<close>, the range in which the counter of the loop counts), the scan returns; the
  snapshots that it fetches are exactly those of the indices \<open>0, \<dots>, n - 1\<close>, in this
  order; and every index \<open>k < n\<close> is handled by the body of the loop from the state that
  the earlier iterations have left, whatever happened in them. If at that moment the
  ledger returns an active and due snapshot for \<open>k\<close> and then estimates, accepts and
  confirms \<^verbatim>\<open>releaseRewards(k)\<close>, the iteration makes exactly the calls of a full
  settlement and counts the market as settled; if moreover the database accepts the
  insert and holds no record of \<open>k\<close>, the record of \<open>k\<close> is stored and is in the store when
  the scan ends.
\<close>

theorem scan_visits_every_market:
  assumes "fst (op_marketCount env (world st)) = Inr n" and "unat n \<le> 2 ^ 53"
  shows "checkAndSettleMarkets_Number env st = Some (checkAndSettleMarkets env st) \<and>
         filter is_GetMarket (calls_since st (checkAndSettleMarkets env st)) =
           map GetMarket [0..<unat n] \<and>
         (k < unat n \<longrightarrow>
            checkAndSettleMarkets env st =
              snd (markets_loop env (unat n) (Suc k) (processMarket env k (scan_before env st k)))) \<and>
         (k < unat n \<and>
          op_getMarket env k (world (snd (scan_before env st k))) = (Inr m, w1) \<and>
          isActive m \<and> due env m w1 \<and>
          op_estimateGas env k w1 = (Inr g, w2) \<and>
          op_releaseRewards env k (g * 120 div 100) w2 = (Inr tx, w3) \<and>
          op_wait env tx w3 = (Inr rc, w4) \<longrightarrow>
            fst (processMarket env k (scan_before env st k)) = Suc (fst (scan_before env st k)) \<and>
            calls (snd (processMarket env k (scan_before env st k))) =
              calls (snd (scan_before env st k)) @
                [GetMarket k, EstimateGas k, ReleaseRewards k (g * 120 div 100),
                 Wait (hash tx), Save k] \<and>
            (op_insert_rejected env (settlementRecord k m (hash tx) rc (op_Date_now env w4)) w4 =
               (None, w5) \<and>
             k \<notin> set (map marketId (store (snd (scan_before env st k)))) \<longrightarrow>
               store (snd (processMarket env k (scan_before env st k))) =
                 store (snd (scan_before env st k)) @
                   [settlementRecord k m (hash tx) rc (op_Date_now env w4)] \<and>
               settlementRecord k m (hash tx) rc (op_Date_now env w4) \<in>
                 set (store (checkAndSettleMarkets env st))))"
proof -
  let ?st1 = "snd (contract_marketCount env st)"
  let ?acc = "(0::nat, ?st1)"
  let ?b = "scan_before env st k"
  let ?r = "settlementRecord k m (hash tx) rc (op_Date_now env w4)"
  have ret: "checkAndSettleMarkets_Number env st = Some (checkAndSettleMarkets env st)"
    using assms by (intro checkAndSettleMarkets_Number_returns) simp
  have loop: "checkAndSettleMarkets env st = snd (markets_loop env (unat n) 0 ?acc)"
    using assms(1) by (simp add: checkAndSettleMarkets_eq markets_loop_fold)
  have eq: "checkAndSettleMarkets env st = snd (fold (processMarket env) [0..<unat n] ?acc)"
    using assms(1) by (simp add: checkAndSettleMarkets_eq)
  have st1: "calls (snd ?acc) = calls st @ [MarketCount]"
    by (simp add: contract_marketCount_eq)
  obtain cs where
    c: "calls (snd (fold (processMarket env) [0..<unat n] ?acc)) = calls (snd ?acc) @ cs"
    and g: "filter is_GetMarket cs = map GetMarket [0..<unat n]"
    using fold_processMarket_calls [of env "[0..<unat n]" ?acc] by blast
  have "calls (checkAndSettleMarkets env st) = calls st @ (MarketCount # cs)"
    using eq c st1 by simp
  then have "calls_since st (checkAndSettleMarkets env st) = MarketCount # cs"
    by (rule calls_since_append)
  then have fetched: "filter is_GetMarket (calls_since st (checkAndSettleMarkets env st)) =
      map GetMarket [0..<unat n]"
    using g by simp
  have split: "checkAndSettleMarkets env st =
      snd (markets_loop env (unat n) (Suc k) (processMarket env k ?b))" if "k < unat n"
    using that loop markets_loop_split [of k "unat n" env ?acc] by (simp add: scan_before_def)
  have settled:
    "fst (processMarket env k ?b) = Suc (fst ?b) \<and>
     calls (snd (processMarket env k ?b)) =
       calls (snd ?b) @ [GetMarket k, EstimateGas k, ReleaseRewards k (g * 120 div 100),
                         Wait (hash tx), Save k] \<and>
     (op_insert_rejected env ?r w4 = (None, w5) \<and> k \<notin> set (map marketId (store (snd ?b))) \<longrightarrow>
        store (snd (processMarket env k ?b)) = store (snd ?b) @ [?r] \<and>
        ?r \<in> set (store (checkAndSettleMarkets env st)))"
    if k: "k < unat n"
      and f: "op_getMarket env k (world (snd ?b)) = (Inr m, w1)" "isActive m" "due env m w1"
        "op_estimateGas env k w1 = (Inr g, w2)"
        "op_releaseRewards env k (g * 120 div 100) w2 = (Inr tx, w3)"
        "op_wait env tx w3 = (Inr rc, w4)"
  proof -
    have b: "?b = (fst ?b, snd ?b)" by simp
    have 1: "fst (processMarket env k ?b) = Suc (fst ?b)"
      using processMarket_finalizes(1) [OF f, of "fst ?b"] by simp
    have 2: "calls (snd (processMarket env k ?b)) =
       calls (snd ?b) @ [GetMarket k, EstimateGas k, ReleaseRewards k (g * 120 div 100),
                         Wait (hash tx), Save k]"
      using processMarket_finalizes(2) [OF f, of "fst ?b"] by simp
    have 3: "store (snd (processMarket env k ?b)) = store (snd ?b) @ [?r] \<and>
        ?r \<in> set (store (checkAndSettleMarkets env st))"
      if i: "op_insert_rejected env ?r w4 = (None, w5)"
        and u: "k \<notin> set (map marketId (store (snd ?b)))"
    proof -
      have s: "store (snd (processMarket env k ?b)) = store (snd ?b) @ [?r]"
        using processMarket_records [OF f i u, of "fst ?b"] by simp
      then have "?r \<in> set (store (snd (processMarket env k ?b)))" by simp
      moreover have "set (store (snd (processMarket env k ?b))) \<subseteq>
          set (store (snd (fold (processMarket env) [Suc k..<unat n] (processMarket env k ?b))))"
        by (rule fold_processMarket_store_grows)
      ultimately have "?r \<in> set (store (checkAndSettleMarkets env st))"
        using split [OF k] by (auto simp add: markets_loop_fold)
      with s show ?thesis by simp
    qed
    from 1 2 3 show ?thesis by blast
  qed
  from ret fetched split settled show ?thesis by blast
qed

theorem scan_visits_every_market_witness:
  "checkAndSettleMarkets_Number failing_ledger idle = Some (checkAndSettleMarkets failing_ledger idle) \<and>
   filter is_GetMarket (calls_since idle (checkAndSettleMarkets failing_ledger idle)) =
     [GetMarket 0, GetMarket 1, GetMarket 2] \<and>
   calls (checkAndSettleMarkets failing_ledger idle) =
     [MarketCount, GetMarket 0, GetMarket 1, EstimateGas 1, GetMarket 2, EstimateGas 2,
      ReleaseRewards 2 120000, Wait ''0xabc'', Save 2] \<and>
   store (checkAndSettleMarkets failing_ledger idle) =
     [settlementRecord 2 (a_market 1600000000 3 1 500 True) ''0xabc''
        \<lparr>blockNumber = 7, gasUsed = 21000\<rparr> 1700000000000]"
proof -
  let ?m = "a_market 1600000000 3 1 500 True"
  let ?b = "scan_before failing_ledger idle 2"
  let ?r = "settlementRecord 2 ?m ''0xabc'' \<lparr>blockNumber = 7, gasUsed = 21000\<rparr> 1700000000000"
  have n: "fst (op_marketCount failing_ledger (world idle)) = Inr 3"
    by (simp add: failing_ledger_def fixed_env_sel)
  have le: "unat (3::uint256) \<le> 2 ^ 53" by simp
  have k: "2 < unat (3::uint256)" by simp
  have u: "[0..<unat (3::uint256)] = [0, 1, 2]" by (simp add: upt_rec)
  have f: "op_getMarket failing_ledger 2 (world (snd ?b)) = (Inr ?m, ())"
    by (simp add: failing_ledger_def fixed_env_sel)
  have a: "isActive ?m" by (simp add: a_market_sel)
  have e: "op_estimateGas failing_ledger 2 () = (Inr 100000, ())"
    by (simp add: failing_ledger_def fixed_env_sel)
  have r: "op_releaseRewards failing_ledger 2 (100000 * 120 div 100) () = (Inr \<lparr>hash = ''0xabc''\<rparr>, ())"
    by (simp add: failing_ledger_def fixed_env_sel)
  have w: "op_wait failing_ledger \<lparr>hash = ''0xabc''\<rparr> () = (Inr \<lparr>blockNumber = 7, gasUsed = 21000\<rparr>, ())"
    by (simp add: failing_ledger_def fixed_env_sel)
  have d: "op_Date_now failing_ledger () = 1700000000000"
    by (simp add: failing_ledger_def fixed_env_sel)
  have i: "op_insert_rejected failing_ledger
      (settlementRecord 2 ?m (hash \<lparr>hash = ''0xabc''\<rparr>) \<lparr>blockNumber = 7, gasUsed = 21000\<rparr>
         (op_Date_now failing_ledger ())) () = (None, ())"
    by (simp add: failing_ledger_def fixed_env_sel)
  have q: "2 \<notin> set (map marketId (store (snd ?b)))"
    unfolding scan_before_failing_ledger by (simp add: idle_def)
  note t = scan_visits_every_market [OF n le, where k = 2 and m = ?m and ?w1.0 = "()"
      and g = 100000 and ?w2.0 = "()" and tx = "\<lparr>hash = ''0xabc''\<rparr>" and ?w3.0 = "()"
      and rc = "\<lparr>blockNumber = 7, gasUsed = 21000\<rparr>" and ?w4.0 = "()" and ?w5.0 = "()"]
  from t have 1: "checkAndSettleMarkets_Number failing_ledger idle =
      Some (checkAndSettleMarkets failing_ledger idle)"
    by blast
  from t have "filter is_GetMarket (calls_since idle (checkAndSettleMarkets failing_ledger idle)) =
      map GetMarket [0..<unat (3::uint256)]"
    by blast
  then have 2: "filter is_GetMarket (calls_since idle (checkAndSettleMarkets failing_ledger idle)) =
      [GetMarket 0, GetMarket 1, GetMarket 2]"
    unfolding u by simp
  from t k have "checkAndSettleMarkets failing_ledger idle =
      snd (markets_loop failing_ledger (unat (3::uint256)) (Suc 2) (processMarket failing_ledger 2 ?b))"
    by blast
  then have 3: "checkAndSettleMarkets failing_ledger idle = snd (processMarket failing_ledger 2 ?b)"
    by (simp add: markets_loop.simps)
  from t k f a due_failing e r w have 4: "calls (snd (processMarket failing_ledger 2 ?b)) =
      calls (snd ?b) @ [GetMarket 2, EstimateGas 2, ReleaseRewards 2 (100000 * 120 div 100),
        Wait (hash \<lparr>hash = ''0xabc''\<rparr>), Save 2]"
    by blast
  from t k f a due_failing e r w i q have 5: "store (snd (processMarket failing_ledger 2 ?b)) =
      store (snd ?b) @ [settlementRecord 2 ?m (hash \<lparr>hash = ''0xabc''\<rparr>)
        \<lparr>blockNumber = 7, gasUsed = 21000\<rparr> (op_Date_now failing_ledger ())]"
    by blast
  from 4 have 6: "calls (checkAndSettleMarkets failing_ledger idle) =
     [MarketCount, GetMarket 0, GetMarket 1, EstimateGas 1, GetMarket 2, EstimateGas 2,
      ReleaseRewards 2 120000, Wait ''0xabc'', Save 2]"
    unfolding 3 scan_before_failing_ledger by simp
  from 5 have 7: "store (checkAndSettleMarkets failing_ledger idle) = [?r]"
    unfolding 3 scan_before_failing_ledger by (simp add: d idle_def)
  from 1 2 6 7 show ?thesis by blast
qed

section \<open>Outcome of a settlement\<close>




section \<open>Errors of a manual settlement\<close>

text \<open>
  C10. The claim is that \<^verbatim>\<open>manualSettle\<close> throws exactly when the snapshot fetch fails
  and that every later failure, persistence included, surfaces as a \<^verbatim>\<open>false\<close> return
  value. A failed insert does not: it is caught inside \<^verbatim>\<open>storeSettlementRecord\<close> and
  \<^verbatim>\<open>manualSettle\<close> returns \<^verbatim>\<open>true\<close>, with no record stored.
\<close>

theorem manualSettle_true_without_record:
  "fst (op_getMarket rejecting_ledger 0 (world idle)) = Inr (a_market 1600000000 3 1 500 True) \<and>
   fst (op_insert_rejected rejecting_ledger
          (settlementRecord 0 (a_market 1600000000 3 1 500 True) ''0xabc''
             \<lparr>blockNumber = 7, gasUsed = 21000\<rparr> 1700000000000) ()) =
     Some (Error ''buffering timed out'') \<and>
   fst (manualSettle rejecting_ledger 0 idle) = Inr True \<and>
   store (snd (manualSettle rejecting_ledger 0 idle)) = []"
  by (simp add: manualSettle_eq contract_getMarket_eq rejecting_ledger_def
      settleMarket_fixed_env [where g = 100000] fixed_env_sel idle_def)

text \<open>
  C10, as the code has it. \<^verbatim>\<open>manualSettle\<close> throws an error exactly when the snapshot
  fetch fails with that error; when the fetch succeeds it returns, and the value is
  \<^verbatim>\<open>true\<close> exactly when estimation, submission and confirmation succeed (so a failure
  of one of these three is a \<^verbatim>\<open>false\<close>, and a failed insert changes nothing).
\<close>

theorem manualSettle_throws_iff_fetch_fails:
  "(fst (manualSettle env i st) = Inl e \<longleftrightarrow> fst (op_getMarket env i (world st)) = Inl e) \<and>
   (fst (op_getMarket env i (world st)) = Inr m \<longrightarrow>
      fst (manualSettle env i st) =
        Inr (finalize_confirmed env i (snd (op_getMarket env i (world st)))))"
  by (cases "fst (op_getMarket env i (world st))")
    (simp_all add: manualSettle_eq settleMarket_fst contract_getMarket_eq)

theorem manualSettle_throws_iff_fetch_fails_witness:
  "fst (op_getMarket unestimable_ledger 0 (world idle)) = Inr (a_market 1600000000 3 1 500 True) \<and>
   fst (manualSettle unestimable_ledger 0 idle) = Inr False \<and>
   fst (op_getMarket unestimable_ledger 1 (world idle)) = Inl (Error ''no market'') \<and>
   fst (manualSettle unestimable_ledger 1 idle) = Inl (Error ''no market'')"
proof -
  have h: "fst (op_getMarket unestimable_ledger 0 (world idle)) =
      Inr (a_market 1600000000 3 1 500 True)"
    by (simp add: unestimable_ledger_def fixed_env_sel)
  have f: "\<not> finalize_confirmed unestimable_ledger 0 w" for w
    by (simp add: unestimable_ledger_def finalize_confirmed_def fixed_env_sel)
  have g: "fst (op_getMarket unestimable_ledger 1 (world idle)) = Inl (Error ''no market'')"
    by (simp add: unestimable_ledger_def fixed_env_sel)
  show ?thesis
    using h f g
      manualSettle_throws_iff_fetch_fails
        [of unestimable_ledger 0 idle "Error ''no market''" "a_market 1600000000 3 1 500 True"]
      manualSettle_throws_iff_fetch_fails
        [of unestimable_ledger 1 idle "Error ''no market''" "a_market 1600000000 3 1 500 True"]
    by simp
qed

section \<open>One record per market\<close>

text \<open>
  C2. The claim is that the engine looks in the store for a record of the market before
  it invokes the finalisation, and never finalises a market that has one. The service
  never reads the collection: \<^verbatim>\<open>settleMarket\<close> and \<^verbatim>\<open>manualSettle\<close> make no check at
  all, and the scan only tests the \<^verbatim>\<open>isActive\<close> flag of the ledger's snapshot. After a
  first settlement has stored the record of market \<open>0\<close>, a ledger that still reports the
  market as active makes both the manual path and the scan submit
  \<^verbatim>\<open>releaseRewards(0)\<close> again; the store still holds one record for the market.
\<close>

theorem finalize_despite_record:
  "map marketId (store settled_once) = [0] \<and>
   ReleaseRewards 0 120000 \<in>
     set (calls_since settled_once (snd (manualSettle accepting_ledger 0 settled_once))) \<and>
   ReleaseRewards 0 120000 \<in>
     set (calls_since settled_once (checkAndSettleMarkets accepting_ledger settled_once)) \<and>
   map marketId (store (checkAndSettleMarkets accepting_ledger settled_once)) = [0]"
proof -
  have g: "fst (op_getMarket accepting_ledger 0 w) = Inr (a_market 1600000000 3 3 500 True)" for w
    by (simp add: accepting_ledger_def fixed_env_sel)
  have m: "calls (snd (manualSettle accepting_ledger 0 settled_once)) =
      calls settled_once @
        [GetMarket 0, EstimateGas 0, ReleaseRewards 0 120000, Wait ''0xabc'', Save 0]"
    by (simp add: manualSettle_eq g settleMarket_accepting_ledger contract_getMarket_eq)
  have c: "calls (checkAndSettleMarkets accepting_ledger settled_once) =
      calls settled_once @
        [MarketCount, GetMarket 0, EstimateGas 0, ReleaseRewards 0 120000, Wait ''0xabc'', Save 0]"
    by (simp add: scan_accepting_ledger settleMarket_accepting_ledger contract_getMarket_eq
        contract_marketCount_eq)
  have s: "store (checkAndSettleMarkets accepting_ledger settled_once) = store settled_once"
    by (simp add: scan_accepting_ledger settleMarket_accepting_ledger contract_getMarket_eq
        contract_marketCount_eq settled_once_eq marketId_settlementRecord)
  show ?thesis
    using calls_since_append [OF m] calls_since_append [OF c] s
    by (simp add: settled_once_eq marketId_settlementRecord)
qed

text \<open>
  C2, as the code has it. What the store holds steers nothing: the outcome, the ledger
  calls and the world after \<^verbatim>\<open>settleMarket\<close>, \<^verbatim>\<open>manualSettle\<close>, the scan and the
  tick of the scheduler are the same for every content of the store. \<^verbatim>\<open>manualSettle\<close>
  makes no check at all: after any successful fetch it requests the gas estimate. The
  scan tests the snapshot only: on an active and due snapshot the iteration requests the
  gas estimate. At most one record exists per market id because the insert of a record
  whose market id is already in the collection is rejected (the unique index on
  \<^verbatim>\<open>marketId\<close>): a store with pairwise distinct market ids keeps them distinct under
  every operation of the service.
\<close>

theorem store_keeps_one_record_per_market:
  "fst (settleMarket env i m (st\<lparr>store := s\<rparr>)) = fst (settleMarket env i m st) \<and>
   calls (snd (settleMarket env i m (st\<lparr>store := s\<rparr>))) = calls (snd (settleMarket env i m st)) \<and>
   (marketId r \<in> set (map marketId (store st)) \<longrightarrow> store (snd (save env r st)) = store st) \<and>
   (distinct (map marketId (store st)) \<longrightarrow>
      distinct (map marketId (store (snd (settleMarket env i m st)))) \<and>
      distinct (map marketId (store (snd (manualSettle env i st)))) \<and>
      distinct (map marketId (store (checkAndSettleMarkets env st))) \<and>
      distinct (map marketId (store (cron_callback env st)))) \<and>
   world (snd (settleMarket env i m (st\<lparr>store := s\<rparr>))) = world (snd (settleMarket env i m st)) \<and>
   fst (manualSettle env i (st\<lparr>store := s\<rparr>)) = fst (manualSettle env i st) \<and>
   calls (snd (manualSettle env i (st\<lparr>store := s\<rparr>))) = calls (snd (manualSettle env i st)) \<and>
   world (snd (manualSettle env i (st\<lparr>store := s\<rparr>))) = world (snd (manualSettle env i st)) \<and>
   calls (checkAndSettleMarkets env (st\<lparr>store := s\<rparr>)) = calls (checkAndSettleMarkets env st) \<and>
   world (checkAndSettleMarkets env (st\<lparr>store := s\<rparr>)) = world (checkAndSettleMarkets env st) \<and>
   calls (cron_callback env (st\<lparr>store := s\<rparr>)) = calls (cron_callback env st) \<and>
   world (cron_callback env (st\<lparr>store := s\<rparr>)) = world (cron_callback env st) \<and>
   (fst (op_getMarket env i (world st)) = Inr m' \<longrightarrow>
      (\<exists>cs. calls (snd (manualSettle env i st)) = calls st @ GetMarket i # EstimateGas i # cs)) \<and>
   (op_getMarket env i (world st) = (Inr m', w') \<and> isActive m' \<and> due env m' w' \<longrightarrow>
      (\<exists>cs. calls (snd (processMarket env i (c, st))) =
             calls st @ GetMarket i # EstimateGas i # cs))"
proof -
  have v: "same_but_store (st\<lparr>store := s\<rparr>) st" by (rule same_but_store_refl)
  have 1: "fst (settleMarket env i m (st\<lparr>store := s\<rparr>)) = fst (settleMarket env i m st)"
    "calls (snd (settleMarket env i m (st\<lparr>store := s\<rparr>))) = calls (snd (settleMarket env i m st))"
    "world (snd (settleMarket env i m (st\<lparr>store := s\<rparr>))) = world (snd (settleMarket env i m st))"
    using settleMarket_same_but_store [OF v, of env i m] by (simp_all add: same_but_store_def)
  have 2: "fst (manualSettle env i (st\<lparr>store := s\<rparr>)) = fst (manualSettle env i st)"
    "calls (snd (manualSettle env i (st\<lparr>store := s\<rparr>))) = calls (snd (manualSettle env i st))"
    "world (snd (manualSettle env i (st\<lparr>store := s\<rparr>))) = world (snd (manualSettle env i st))"
    using manualSettle_same_but_store [OF v, of env i] by (simp_all add: same_but_store_def)
  have 3: "calls (checkAndSettleMarkets env (st\<lparr>store := s\<rparr>)) = calls (checkAndSettleMarkets env st)"
    "world (checkAndSettleMarkets env (st\<lparr>store := s\<rparr>)) = world (checkAndSettleMarkets env st)"
    using checkAndSettleMarkets_same_but_store [OF v, of env] by (simp_all add: same_but_store_def)
  have 4: "calls (cron_callback env (st\<lparr>store := s\<rparr>)) = calls (cron_callback env st)"
    "world (cron_callback env (st\<lparr>store := s\<rparr>)) = world (cron_callback env st)"
    using cron_callback_same_but_store [OF v, of env] by (simp_all add: same_but_store_def)
  have 5: "marketId r \<in> set (map marketId (store st)) \<longrightarrow> store (snd (save env r st)) = store st"
    using save_duplicate [where r = r and st = st and env = env] by simp
  have 6: "distinct (map marketId (store st)) \<longrightarrow>
      distinct (map marketId (store (snd (settleMarket env i m st)))) \<and>
      distinct (map marketId (store (snd (manualSettle env i st)))) \<and>
      distinct (map marketId (store (checkAndSettleMarkets env st))) \<and>
      distinct (map marketId (store (cron_callback env st)))"
    by (simp add: settleMarket_distinct manualSettle_distinct checkAndSettleMarkets_distinct
        cron_callback_distinct)
  have 7: "fst (op_getMarket env i (world st)) = Inr m' \<longrightarrow>
      (\<exists>cs. calls (snd (manualSettle env i st)) = calls st @ GetMarket i # EstimateGas i # cs)"
    using manualSettle_starts_settlement [of env i st m'] by blast
  have 8: "op_getMarket env i (world st) = (Inr m', w') \<and> isActive m' \<and> due env m' w' \<longrightarrow>
      (\<exists>cs. calls (snd (processMarket env i (c, st))) =
             calls st @ GetMarket i # EstimateGas i # cs)"
    using processMarket_starts_settlement [of env i st m' w' c] by blast
  from 1 2 3 4 5 6 7 8 show ?thesis by blast
qed

theorem store_keeps_one_record_per_market_witness:
  "distinct (map marketId (store settled_once)) \<and>
   marketId (settlementRecord 0 (a_market 1600000000 9 9 900 True) ''0xdef''
     \<lparr>blockNumber = 8, gasUsed = 21000\<rparr> 1700000300000) \<in> set (map marketId (store settled_once)) \<and>
   store (snd (save accepting_ledger
     (settlementRecord 0 (a_market 1600000000 9 9 900 True) ''0xdef''
        \<lparr>blockNumber = 8, gasUsed = 21000\<rparr> 1700000300000) settled_once)) = store settled_once \<and>
   distinct (map marketId (store (checkAndSettleMarkets accepting_ledger settled_once))) \<and>
   calls (checkAndSettleMarkets accepting_ledger (settled_once\<lparr>store := []\<rparr>)) =
     calls (checkAndSettleMarkets accepting_ledger settled_once) \<and>
   (\<exists>cs. calls (snd (manualSettle accepting_ledger 0 settled_once)) =
          calls settled_once @ GetMarket 0 # EstimateGas 0 # cs) \<and>
   (\<exists>cs. calls (snd (processMarket accepting_ledger 0 (0, settled_once))) =
          calls settled_once @ GetMarket 0 # EstimateGas 0 # cs)"
proof -
  let ?m = "a_market 1600000000 3 3 500 True"
  have d: "distinct (map marketId (store settled_once))"
    by (simp add: settled_once_eq)
  have e: "marketId (settlementRecord 0 (a_market 1600000000 9 9 900 True) ''0xdef''
     \<lparr>blockNumber = 8, gasUsed = 21000\<rparr> 1700000300000) \<in> set (map marketId (store settled_once))"
    by (simp add: settled_once_eq marketId_settlementRecord)
  have g: "op_getMarket accepting_ledger 0 (world settled_once) = (Inr ?m, ())"
    by (simp add: accepting_ledger_def fixed_env_sel)
  then have g': "fst (op_getMarket accepting_ledger 0 (world settled_once)) = Inr ?m" by simp
  have a: "isActive ?m" by (simp add: a_market_sel)
  show ?thesis
    using d e g g' a due_accepting [of "()"]
      store_keeps_one_record_per_market [where env = accepting_ledger and i = 0
        and m = ?m and st = settled_once and s = "[]"
        and r = "settlementRecord 0 (a_market 1600000000 9 9 900 True) ''0xdef''
           \<lparr>blockNumber = 8, gasUsed = 21000\<rparr> 1700000300000"
        and m' = ?m and w' = "()" and c = 0]
    by blast
qed

section \<open>Winning side\<close>

text \<open>
  C7. Every record that a settlement adds to the store has \<^verbatim>\<open>winnerSide = 'funny'\<close> if
  and only if its \<^verbatim>\<open>yesVotes\<close> is strictly greater than its \<^verbatim>\<open>noVotes\<close>, and
  \<^verbatim>\<open>'lame'\<close> otherwise; a tie of the ledger's tallies always gives \<^verbatim>\<open>'lame'\<close>. The
  tallies of the record are the Numbers \<^verbatim>\<open>Number(yesVotes)\<close> and \<^verbatim>\<open>Number(noVotes)\<close>
  that the comparison is made on; they are the ledger's tallies themselves up to
  \<open>2 ^ 53\<close>.
\<close>

theorem winnerSide_strict_majority:
  assumes "r \<in> set (store (snd (settleMarket env i m st)))" and "r \<notin> set (store st)"
  shows "yesVotes_n r = Number (yesVotes m) \<and> noVotes_n r = Number (noVotes m) \<and>
         (winnerSide r = funny \<longleftrightarrow> noVotes_n r < yesVotes_n r) \<and>
         (winnerSide r = lame \<longleftrightarrow> yesVotes_n r \<le> noVotes_n r) \<and>
         (yesVotes m = noVotes m \<longrightarrow> winnerSide r = lame) \<and>
         (unat (yesVotes m) \<le> 2 ^ 53 \<and> unat (noVotes m) \<le> 2 ^ 53 \<longrightarrow>
            (winnerSide r = funny \<longleftrightarrow> noVotes m < yesVotes m))"
proof -
  obtain h rc now where r: "r = settlementRecord i m h rc now"
    using settleMarket_new_record [OF assms] by blast
  show ?thesis
    unfolding r settlementRecord_votes using Number_less_exact [of "noVotes m" "yesVotes m"]
    by auto
qed

theorem winnerSide_strict_majority_witness:
  "winnerSide (settlementRecord 0 (a_market 1600000000 3 3 500 True) ''0xabc''
     \<lparr>blockNumber = 7, gasUsed = 21000\<rparr> 1700000000000) = lame"
proof -
  let ?r = "settlementRecord 0 (a_market 1600000000 3 3 500 True) ''0xabc''
     \<lparr>blockNumber = 7, gasUsed = 21000\<rparr> 1700000000000"
  have a: "?r \<in> set (store (snd (settleMarket accepting_ledger 0
      (a_market 1600000000 3 3 500 True) idle)))"
    by (simp add: settleMarket_accepting_ledger idle_def)
  have b: "?r \<notin> set (store idle)" by (simp add: idle_def)
  show ?thesis
    using winnerSide_strict_majority [OF a b] by (simp add: a_market_sel)
qed

section \<open>Participants\<close>

text \<open>
  C9. Every record that the service persists has an empty \<^verbatim>\<open>participants\<close> list: if no
  record of the store has participants, none has after a settlement, a manual settlement,
  a scan or a tick of the scheduler, and the query for the settlements of a participant
  address finds nothing.
\<close>

theorem engine_records_have_no_participants:
  assumes "\<forall>r\<in>set (store st). participants r = []"
  shows "(\<forall>r\<in>set (store (snd (settleMarket env i m st))). participants r = []) \<and>
         (\<forall>r\<in>set (store (snd (manualSettle env i st))). participants r = []) \<and>
         (\<forall>r\<in>set (store (checkAndSettleMarkets env st)). participants r = []) \<and>
         (\<forall>r\<in>set (store (cron_callback env st)). participants r = []) \<and>
         find_participants_address a (store (snd (settleMarket env i m st))) = [] \<and>
         find_participants_address a (store (snd (manualSettle env i st))) = [] \<and>
         find_participants_address a (store (checkAndSettleMarkets env st)) = [] \<and>
         find_participants_address a (store (cron_callback env st)) = []"
  using settleMarket_no_participants [OF assms, of env i m]
    manualSettle_no_participants [OF assms, of env i]
    checkAndSettleMarkets_no_participants [OF assms, of env]
    cron_callback_no_participants [OF assms, of env]
  by (simp add: find_participants_address_empty)

theorem engine_records_have_no_participants_witness:
  "store (checkAndSettleMarkets accepting_ledger idle) =
     [settlementRecord 0 (a_market 1600000000 3 3 500 True) ''0xabc''
        \<lparr>blockNumber = 7, gasUsed = 21000\<rparr> 1700000000000] \<and>
   find_participants_address ''0xc0ffee'' (store (checkAndSettleMarkets accepting_ledger idle)) = []"
proof -
  have h: "\<forall>r\<in>set (store idle). participants r = []" by (simp add: idle_def)
  have s: "store (checkAndSettleMarkets accepting_ledger idle) =
     [settlementRecord 0 (a_market 1600000000 3 3 500 True) ''0xabc''
        \<lparr>blockNumber = 7, gasUsed = 21000\<rparr> 1700000000000]"
    by (simp add: scan_accepting_ledger settleMarket_accepting_ledger contract_getMarket_eq
        contract_marketCount_eq idle_def)
  show ?thesis
    using engine_records_have_no_participants [OF h, of accepting_ledger 0
        "a_market 1600000000 3 3 500 True" "''0xc0ffee''"] s
    by simp
qed

section \<open>Status of a market\<close>

text \<open>
  C8. \<^verbatim>\<open>getSettlementStatus\<close> fetches one snapshot and changes nothing else (the store
  and the lock are as before, and the fetch is its only call); a failed fetch is thrown
  to the caller. The projection carries the \<^verbatim>\<open>isActive\<close> flag of the snapshot,
  \<^verbatim>\<open>timeLeft = Number(endTime) - now\<close> and
  \<^verbatim>\<open>readyForSettlement = (timeLeft <= 0 && isActive)\<close>; \<open>timeLeft \<le> 0\<close> holds exactly
  when the deadline is not after \<open>now\<close>, so a market past its deadline and still active
  is ready and a settled market reports \<^verbatim>\<open>isActive = false\<close>. For deadlines and clock
  values up to \<open>2 ^ 53\<close> the subtraction is exact.
\<close>

theorem getSettlementStatus_projection:
  "(op_getMarket env i (world st) = (Inl e, w') \<longrightarrow>
      getSettlementStatus env i st = (Inl e, st\<lparr>world := w', calls := calls st @ [GetMarket i]\<rparr>)) \<and>
   (op_getMarket env i (world st) = (Inr m, w') \<longrightarrow>
      (\<exists>s. getSettlementStatus env i st =
              (Inr s, st\<lparr>world := w', calls := calls st @ [GetMarket i]\<rparr>) \<and>
           status_isActive s = isActive m \<and>
           timeLeft s = js_sub (Number (endTime m)) (now_seconds (op_Date_now env w')) \<and>
           readyForSettlement s = (timeLeft s \<le> 0 \<and> status_isActive s) \<and>
           (timeLeft s \<le> 0 \<longleftrightarrow> Number (endTime m) \<le> now_seconds (op_Date_now env w')) \<and>
           (unat (endTime m) \<le> 2 ^ 53 \<and> 0 \<le> now_seconds (op_Date_now env w') \<and>
            now_seconds (op_Date_now env w') \<le> 2 ^ 53 \<longrightarrow>
              timeLeft s = int (unat (endTime m)) - now_seconds (op_Date_now env w'))))"
proof (intro conjI impI)
  assume "op_getMarket env i (world st) = (Inl e, w')"
  then show "getSettlementStatus env i st =
      (Inl e, st\<lparr>world := w', calls := calls st @ [GetMarket i]\<rparr>)"
    by (simp add: getSettlementStatus_eq)
next
  assume g: "op_getMarket env i (world st) = (Inr m, w')"
  let ?now = "now_seconds (op_Date_now env w')"
  let ?s = "\<lparr> status_marketId = i, status_isActive = isActive m,
              timeLeft = js_sub (Number (endTime m)) ?now,
              readyForSettlement = (js_sub (Number (endTime m)) ?now \<le> 0 \<and> isActive m),
              status_yesVotes = Number (yesVotes m), status_noVotes = Number (noVotes m),
              status_totalStaked = formatEther (totalStaked m) \<rparr>"
  have 1: "getSettlementStatus env i st =
      (Inr ?s, st\<lparr>world := w', calls := calls st @ [GetMarket i]\<rparr>)"
    using g by (simp add: getSettlementStatus_eq)
  have 2: "unat (endTime m) \<le> 2 ^ 53 \<and> 0 \<le> ?now \<and> ?now \<le> 2 ^ 53 \<longrightarrow>
      timeLeft ?s = int (unat (endTime m)) - ?now"
    by (simp add: js_sub_Number_exact)
  have 3: "timeLeft ?s \<le> 0 \<longleftrightarrow> Number (endTime m) \<le> ?now"
    by (simp add: js_sub_le_0)
  have 4: "status_isActive ?s = isActive m" "timeLeft ?s = js_sub (Number (endTime m)) ?now"
    "readyForSettlement ?s = (timeLeft ?s \<le> 0 \<and> status_isActive ?s)"
    by simp_all
  show "\<exists>s. getSettlementStatus env i st =
              (Inr s, st\<lparr>world := w', calls := calls st @ [GetMarket i]\<rparr>) \<and>
           status_isActive s = isActive m \<and>
           timeLeft s = js_sub (Number (endTime m)) ?now \<and>
           readyForSettlement s = (timeLeft s \<le> 0 \<and> status_isActive s) \<and>
           (timeLeft s \<le> 0 \<longleftrightarrow> Number (endTime m) \<le> ?now) \<and>
           (unat (endTime m) \<le> 2 ^ 53 \<and> 0 \<le> ?now \<and> ?now \<le> 2 ^ 53 \<longrightarrow>
              timeLeft s = int (unat (endTime m)) - ?now)"
    using 1 2 3 4 by blast
qed

theorem getSettlementStatus_projection_witness:
  "\<exists>s. getSettlementStatus accepting_ledger 0 idle = (Inr s, idle\<lparr>calls := [GetMarket 0]\<rparr>) \<and>
       status_isActive s \<and> timeLeft s = - 100000000 \<and> readyForSettlement s"
proof -
  have g: "op_getMarket accepting_ledger 0 (world idle) =
      (Inr (a_market 1600000000 3 3 500 True), ())"
    by (simp add: accepting_ledger_def fixed_env_sel)
  have n: "now_seconds (op_Date_now accepting_ledger ()) = 1700000000"
    by (simp add: accepting_ledger_def fixed_env_sel now_seconds_def)
  from getSettlementStatus_projection
    [of accepting_ledger 0 idle "Error []" "()" "a_market 1600000000 3 3 500 True"] g
  obtain s where
    "getSettlementStatus accepting_ledger 0 idle =
       (Inr s, idle\<lparr>world := (), calls := calls idle @ [GetMarket 0]\<rparr>)"
    "status_isActive s = isActive (a_market 1600000000 3 3 500 True)"
    "readyForSettlement s = (timeLeft s \<le> 0 \<and> status_isActive s)"
    "unat (endTime (a_market 1600000000 3 3 500 True)) \<le> 2 ^ 53 \<and>
       0 \<le> now_seconds (op_Date_now accepting_ledger ()) \<and>
       now_seconds (op_Date_now accepting_ledger ()) \<le> 2 ^ 53 \<longrightarrow>
     timeLeft s = int (unat (endTime (a_market 1600000000 3 3 500 True))) -
       now_seconds (op_Date_now accepting_ledger ())"
    by blast
  then show ?thesis
    by (intro exI [of _ s]) (simp add: n a_market_sel idle_def)
qed

section \<open>The scan lock\<close>

text \<open>
  C4. A tick that finds the lock held starts no scan and changes nothing. A tick that
  finds it released runs the scan with the lock held and releases it when the scan ends,
  also when the scan throws. For every sequence of ticks and scan ends that starts with
  the lock released, at most one scan is in flight, and the lock is held exactly while
  one is. The scan itself never writes the lock.
\<close>

theorem scan_lock:
  "(isRunning st \<longrightarrow>
      cron_callback_with scan st = st \<and> cron_callback env st = st \<and>
      cron_step Tick (st, k) = Some (st, k)) \<and>
   (\<not> isRunning st' \<longrightarrow>
      cron_callback_with scan st' = cron_exit (snd (scan (st'\<lparr>isRunning := True\<rparr>))) \<and>
      \<not> isRunning (cron_callback_with scan st') \<and> \<not> isRunning (cron_callback env st')) \<and>
   (\<not> isRunning st0 \<and> cron_run es (st0, 0) = Some (st1, k1) \<longrightarrow>
      k1 \<le> 1 \<and> (isRunning st1 \<longleftrightarrow> k1 = 1)) \<and>
   isRunning (checkAndSettleMarkets env st2) = isRunning st2"
proof (intro conjI impI)
  show "isRunning (checkAndSettleMarkets env st2) = isRunning st2"
    by (rule checkAndSettleMarkets_isRunning)
next
  assume "isRunning st"
  then show "cron_callback_with scan st = st" by (rule cron_callback_with_locked)
next
  assume "isRunning st"
  then show "cron_callback env st = st" unfolding cron_callback_def by (rule cron_callback_with_locked)
next
  assume "isRunning st"
  then show "cron_step Tick (st, k) = Some (st, k)" by (simp add: cron_enter_def)
next
  assume "\<not> isRunning st'"
  then show "cron_callback_with scan st' = cron_exit (snd (scan (st'\<lparr>isRunning := True\<rparr>)))"
    by (rule cron_callback_with_unlocked)
next
  assume "\<not> isRunning st'"
  then show "\<not> isRunning (cron_callback_with scan st')"
    by (simp add: cron_callback_with_unlocked cron_exit_def)
next
  assume "\<not> isRunning st'"
  then show "\<not> isRunning (cron_callback env st')"
    by (simp add: cron_callback_def cron_callback_with_unlocked cron_exit_def)
next
  assume a: "\<not> isRunning st0 \<and> cron_run es (st0, 0) = Some (st1, k1)"
  then have "cron_run es (st0, 0) = Some (st1, k1)" "(0::nat) \<le> 1" "isRunning st0 \<longleftrightarrow> (0::nat) = 1"
    by simp_all
  then have "k1 \<le> 1 \<and> (isRunning st1 \<longleftrightarrow> k1 = 1)" by (rule cron_run_lock)
  then show "k1 \<le> 1" "isRunning st1 = (k1 = 1)" by simp_all
qed

theorem scan_lock_witness:
  "cron_callback_with (\<lambda>s. (Inl (Error ''scan failed''), s)) (idle\<lparr>isRunning := True\<rparr>) =
     idle\<lparr>isRunning := True\<rparr> \<and>
   \<not> isRunning (cron_callback_with (\<lambda>s. (Inl (Error ''scan failed''), s)) idle) \<and>
   cron_run [Tick, Tick, ScanThrows, Tick, Tick] (idle, 0) = Some (idle\<lparr>isRunning := True\<rparr>, 1)"
proof -
  have a: "isRunning (idle\<lparr>isRunning := True\<rparr>)" by simp
  have b: "\<not> isRunning idle" by (simp add: idle_def)
  have c: "cron_run [Tick, Tick, ScanThrows, Tick, Tick] (idle, 0) =
      Some (idle\<lparr>isRunning := True\<rparr>, 1)"
    by (simp add: cron_enter_def cron_exit_def idle_def)
  from scan_lock [of "idle\<lparr>isRunning := True\<rparr>" "\<lambda>s. (Inl (Error ''scan failed''), s)"
      accepting_ledger 0 idle idle "[Tick, Tick, ScanThrows, Tick, Tick]"
      "idle\<lparr>isRunning := True\<rparr>" 1] a b c
  have "cron_callback_with (\<lambda>s. (Inl (Error ''scan failed''), s)) (idle\<lparr>isRunning := True\<rparr>) =
      idle\<lparr>isRunning := True\<rparr>"
    and "\<not> isRunning (cron_callback_with (\<lambda>s. (Inl (Error ''scan failed''), s)) idle)"
    by blast+
  with c show ?thesis by blast
qed

end
